theory Spec2Isabelle
  imports Complex_Main "HOL-Library.Char_ord" "HOL-Library.List_Lexorder" "HOL-Library.AList"
begin

section \<open>Text primitives of the host language\<close>

text \<open>
  The source is Python. A text is modelled as a \<^typ>\<open>string\<close> whose characters are the code
  points below 256; on that range \<open>str.isspace\<close> (used by \<open>str.strip\<close> and by the
  regular-expression class \<open>\s\<close>) holds for the twelve characters listed here, and the class
  \<open>\d\<close> holds for the ten ASCII digits.
\<close>

definition py_isspace :: "char \<Rightarrow> bool" where
  "py_isspace c = (c \<in> set [CHR 0x09, CHR 0x0A, CHR 0x0B, CHR 0x0C, CHR 0x0D, CHR 0x1C,
     CHR 0x1D, CHR 0x1E, CHR 0x1F, CHR 0x20, CHR 0x85, CHR 0xA0])"

definition py_isdigit :: "char \<Rightarrow> bool" where
  "py_isdigit c = (c \<in> set ''0123456789'')"

definition py_strip :: "string \<Rightarrow> string" where
  "py_strip s = rev (dropWhile py_isspace (rev (dropWhile py_isspace s)))"

definition py_slice :: "string \<Rightarrow> nat \<Rightarrow> nat \<Rightarrow> string" where
  "py_slice s a b = take (b - a) (drop a s)"

definition digit_value :: "char \<Rightarrow> nat" where
  "digit_value c = of_char c - 48"

definition digits_value :: "string \<Rightarrow> nat" where
  "digits_value s = foldl (\<lambda>n c. 10 * n + digit_value c) 0 s"

text \<open>
  \<open>float(s)\<close> on a string of digits is the binary64 number nearest to the integer written
  (ties to the even significand), or infinity from \<open>2 ^ 1024 - 2 ^ 970\<close> on. Such a
  number is itself an integer, so a float obtained this way is modelled by its value.
\<close>

datatype py_float = Finite nat | Infinity

fun bit_length :: "nat \<Rightarrow> nat" where
  "bit_length n = (if n = 0 then 0 else Suc (bit_length (n div 2)))"

declare bit_length.simps [simp del]

definition round_binary64 :: "nat \<Rightarrow> py_float" where
  "round_binary64 n =
     (let e = bit_length n - 53;
          q = n div 2 ^ e;
          r = n mod 2 ^ e;
          q' = (if 2 * r > 2 ^ e \<or> (2 * r = 2 ^ e \<and> odd q) then q + 1 else q)
      in if bit_length (q' * 2 ^ e) > 1024 then Infinity else Finite (q' * 2 ^ e))"

definition float_of_digits :: "string \<Rightarrow> py_float" where
  "float_of_digits s = round_binary64 (digits_value s)"

section \<open>Regular expressions\<close>

text \<open>
  The fragment of \<open>re\<close> that the four patterns of the parser are written in: literals,
  a character class under \<open>*\<close>, \<open>*?\<close> or \<open>+\<close>, capturing groups, sequence, alternation,
  lookahead and the two meanings of \<open>$\<close>. Matching at a position returns every way to match
  in the order in which the backtracking matcher tries them, so the head of the list is the
  match that \<open>re\<close> reports. A way to match is the captured groups, the text matched and the
  text left.
\<close>

datatype cls = Space | Digit | NotPipe | NotRParen | NotNewline | AnyChar

fun in_cls :: "cls \<Rightarrow> char \<Rightarrow> bool" where
  "in_cls Space c = py_isspace c"
| "in_cls Digit c = py_isdigit c"
| "in_cls NotPipe c = (c \<noteq> CHR ''|'')"
| "in_cls NotRParen c = (c \<noteq> CHR '')'')"
| "in_cls NotNewline c = (c \<noteq> CHR 0x0A)"
| "in_cls AnyChar c = True"

datatype rx =
    Lit string
  | Star cls
  | Lazy cls
  | Plus cls
  | Grp rx
  | Seq rx rx
  | Alt rx rx
  | Ahead rx
  | Eos
  | Eol

fun lit_match :: "string \<Rightarrow> string \<Rightarrow> string option" where
  "lit_match [] s = Some s"
| "lit_match (c # cs) [] = None"
| "lit_match (c # cs) (x # xs) = (if c = x then lit_match cs xs else None)"

fun star_greedy :: "cls \<Rightarrow> string \<Rightarrow> (string \<times> string) list" where
  "star_greedy c [] = [([], [])]"
| "star_greedy c (x # xs) =
     (if in_cls c x then map (\<lambda>(m, r). (x # m, r)) (star_greedy c xs) @ [([], x # xs)]
      else [([], x # xs)])"

fun star_lazy :: "cls \<Rightarrow> string \<Rightarrow> (string \<times> string) list" where
  "star_lazy c [] = [([], [])]"
| "star_lazy c (x # xs) =
     ([], x # xs) # (if in_cls c x then map (\<lambda>(m, r). (x # m, r)) (star_lazy c xs) else [])"

type_synonym rx_way = "string list \<times> string \<times> string"

fun rx_match :: "rx \<Rightarrow> string \<Rightarrow> rx_way list" where
  "rx_match (Lit l) s = (case lit_match l s of None \<Rightarrow> [] | Some s' \<Rightarrow> [([], l, s')])"
| "rx_match (Star c) s = map (Pair []) (star_greedy c s)"
| "rx_match (Lazy c) s = map (Pair []) (star_lazy c s)"
| "rx_match (Plus c) s =
     (case s of [] \<Rightarrow> []
      | x # xs \<Rightarrow> if in_cls c x then map (\<lambda>(m, r). ([], x # m, r)) (star_greedy c xs) else [])"
| "rx_match (Grp r) s = map (\<lambda>(g, m, s'). (g @ [m], m, s')) (rx_match r s)"
| "rx_match (Seq a b) s =
     concat (map (\<lambda>(g1, m1, s1). map (\<lambda>(g2, m2, s2). (g1 @ g2, m1 @ m2, s2)) (rx_match b s1))
       (rx_match a s))"
| "rx_match (Alt a b) s = rx_match a s @ rx_match b s"
| "rx_match (Ahead r) s = (case rx_match r s of [] \<Rightarrow> [] | (g, _) # _ \<Rightarrow> [(g, [], s)])"
| "rx_match Eos s = (if s = [] \<or> s = [CHR 0x0A] then [([], [], s)] else [])"
| "rx_match Eol s =
     (case s of [] \<Rightarrow> [([], [], s)] | x # _ \<Rightarrow> if x = CHR 0x0A then [([], [], s)] else [])"

fun seqs :: "rx list \<Rightarrow> rx" where
  "seqs [] = Lit []"
| "seqs [r] = r"
| "seqs (r # rs) = Seq r (seqs rs)"

text \<open>A match object: where the match starts and ends in the searched text, and its groups.\<close>

record re_match =
  m_start :: nat
  m_end :: nat
  m_groups :: "string list"

text \<open>
  \<open>rx_scan r i s\<close> looks for the leftmost match in \<open>s\<close>, the part of the searched text from
  offset \<open>i\<close> on; \<open>re.search\<close> is the scan from offset 0.
\<close>

fun rx_scan :: "rx \<Rightarrow> nat \<Rightarrow> string \<Rightarrow> re_match option" where
  "rx_scan r i [] =
     (case rx_match r [] of
        (g, m, _) # _ \<Rightarrow> Some \<lparr>m_start = i, m_end = i + length m, m_groups = g\<rparr>
      | [] \<Rightarrow> None)"
| "rx_scan r i (x # xs) =
     (case rx_match r (x # xs) of
        (g, m, _) # _ \<Rightarrow> Some \<lparr>m_start = i, m_end = i + length m, m_groups = g\<rparr>
      | [] \<Rightarrow> rx_scan r (Suc i) xs)"

definition re_search :: "rx \<Rightarrow> string \<Rightarrow> re_match option" where
  "re_search r s = rx_scan r 0 s"

lemma rx_scan_start: "rx_scan r i s = Some mt \<Longrightarrow> i \<le> m_start mt"
proof (induction s arbitrary: i)
  case Nil
  then show ?case by (auto split: list.splits)
next
  case (Cons x xs)
  show ?case
  proof (cases "rx_match r (x # xs)")
    case Nil
    with Cons.prems have "rx_scan r (Suc i) xs = Some mt" by simp
    from Cons.IH [OF this] show ?thesis by simp
  next
    case (Cons w ws)
    with Cons.prems show ?thesis by (auto split: prod.splits)
  qed
qed

text \<open>
  \<open>re.finditer\<close>: the matches from left to right, each search starting where the last match
  ended (one character further after an empty match).
\<close>

function rx_finditer :: "rx \<Rightarrow> nat \<Rightarrow> string \<Rightarrow> re_match list" where
  "rx_finditer r i s =
     (case rx_scan r i s of
        None \<Rightarrow> []
      | Some mt \<Rightarrow>
          mt # (let j = max (m_end mt) (Suc (m_start mt))
                in if length s < j - i then [] else rx_finditer r j (drop (j - i) s)))"
  by pat_completeness auto
termination
proof (relation "measure (\<lambda>(r, i, s). length s)")
  show "wf (measure (\<lambda>(r, i, s). length s))" by simp
next
  fix r :: rx and i :: nat and s :: string and mt :: re_match and j :: nat
  assume scan: "rx_scan r i s = Some mt"
    and j: "j = max (m_end mt) (Suc (m_start mt))"
    and le: "\<not> length s < j - i"
  from rx_scan_start [OF scan] j have "0 < j - i" by simp
  with le show "((r, j, drop (j - i) s), (r, i, s)) \<in> measure (\<lambda>(r, i, s). length s)"
    by simp
qed

declare rx_finditer.simps [simp del]

definition re_finditer :: "rx \<Rightarrow> string \<Rightarrow> re_match list" where
  "re_finditer r s = rx_finditer r 0 s"

definition re_findall :: "rx \<Rightarrow> string \<Rightarrow> string list list" where
  "re_findall r s = map m_groups (re_finditer r s)"

subsection \<open>Notions used in the statements about the patterns\<close>

text \<open>The matches of a scan from left to right lie one after the other, from \<open>lo\<close> up to \<open>hi\<close>.\<close>

fun in_order :: "nat \<Rightarrow> nat \<Rightarrow> re_match list \<Rightarrow> bool" where
  "in_order lo hi [] = True"
| "in_order lo hi (mt # ms) =
     (lo \<le> m_start mt \<and> m_start mt \<le> m_end mt \<and> m_end mt \<le> hi \<and> in_order (m_end mt) hi ms)"

text \<open>A pattern without a capturing group.\<close>

fun groupless :: "rx \<Rightarrow> bool" where
  "groupless (Grp r) = False"
| "groupless (Seq a b) = (groupless a \<and> groupless b)"
| "groupless (Alt a b) = (groupless a \<and> groupless b)"
| "groupless (Ahead r) = groupless r"
| "groupless _ = True"

text \<open>A lower bound on the number of pipe characters in any text that a pattern matches.\<close>

fun min_pipes :: "rx \<Rightarrow> nat" where
  "min_pipes (Lit l) = length (filter (\<lambda>c. c = CHR ''|'') l)"
| "min_pipes (Seq a b) = min_pipes a + min_pipes b"
| "min_pipes (Alt a b) = min (min_pipes a) (min_pipes b)"
| "min_pipes (Grp r) = min_pipes r"
| "min_pipes _ = 0"

section \<open>The knowledge-graph parser\<close>

subsection \<open>Data model\<close>

record entity =
  entity_name :: string
  entity_type :: string
  description :: string
  source_id :: string

record relationship =
  src_id :: string
  tgt_id :: string
  description :: string
  rel_keywords :: string
  weight :: py_float
  source_id :: string

record chunk =
  content :: string
  source_id :: string
  source_chunk_index :: int

record kg_data =
  entities :: "entity list"
  relationships :: "relationship list"
  chunks :: "chunk list"

datatype py_error = ValueError string | ZeroDivisionError

subsection \<open>The conversion of a chunk id to an integer\<close>

text \<open>
  \<open>int(s)\<close> on a string of digits gives the number written, unless the string has more
  than 4300 digits (leading zeros count): the interpreter then raises \<open>ValueError\<close>, with
  the number of digits in the message. 4300 is the interpreter's default limit.
\<close>

fun str_nat :: "nat \<Rightarrow> string" where
  "str_nat n =
     (if n < 10 then [char_of (48 + n)] else str_nat (n div 10) @ [char_of (48 + n mod 10)])"

declare str_nat.simps [simp del]

definition int_limit_error :: "nat \<Rightarrow> py_error" where
  "int_limit_error n =
     ValueError (''Exceeds the limit (4300 digits) for integer string conversion: value has '' @
       str_nat n @ '' digits; use sys.set_int_max_str_digits() to increase the limit'')"

definition py_int :: "string \<Rightarrow> py_error + int" where
  "py_int s =
     (if length s > 4300 then Inl (int_limit_error (length s)) else Inr (int (digits_value s)))"

text \<open>What the functions hand to the logger, in the order of the calls.\<close>

datatype log_msg =
    Info_found_chunks nat
  | Warn_chunk_empty string
  | Info_chunk_text string nat
  | Warn_no_original_text string
  | Info_parsed nat nat nat
  | Error_empty_entity_name entity
  | Error_empty_entity_type entity
  | Info_entities_valid
  | Error_empty_source relationship
  | Error_empty_target relationship
  | Warn_no_keywords string string
  | Warn_undefined_entities "string set"
  | Info_relationships_valid
  | Error_no_chunks
  | Info_chunks_valid nat

subsection \<open>The four patterns\<close>

text \<open>
  \<^verbatim>\<open>No\.: (\d+) of all the chunks\<close>
\<close>

definition chunk_pattern :: rx where
  "chunk_pattern = seqs [Lit ''No.: '', Grp (Plus Digit), Lit '' of all the chunks'']"

text \<open>
  \<^verbatim>\<open>original text:\s*(.*?)(?=total tokens:|deepseek-v3 output:|$)\<close> under \<open>re.DOTALL\<close>:
  the dot is any character, and \<open>$\<close> is the end of the text or the place before its
  last newline.
\<close>

definition original_text_pattern :: rx where
  "original_text_pattern = seqs [Lit ''original text:'', Star Space, Grp (Lazy AnyChar),
     Ahead (Alt (Lit ''total tokens:'') (Alt (Lit ''deepseek-v3 output:'') Eos))]"

text \<open>
  \<^verbatim>\<open>\("entity"\s*\|\s*([^|]*?)\s*\|\s*([^|]*?)\s*\|\s*(.*?)\s*\)(?=\s*$|\s*\()\<close> under
  \<open>re.MULTILINE\<close>: the dot is any character but the newline, and \<open>$\<close> is the end of
  the text or the place before a newline.
\<close>

definition entity_pattern :: rx where
  "entity_pattern = seqs [Lit ''(\"entity\"'', Star Space, Lit ''|'', Star Space,
     Grp (Lazy NotPipe), Star Space, Lit ''|'', Star Space,
     Grp (Lazy NotPipe), Star Space, Lit ''|'', Star Space,
     Grp (Lazy NotNewline), Star Space, Lit '')'',
     Ahead (Alt (Seq (Star Space) Eol) (Seq (Star Space) (Lit ''('')))]"

text \<open>
  \<^verbatim>\<open>\("relationship"\s*\|\s*([^|]*?)\s*\|\s*([^|]*?)\s*\|\s*([^|]*?)\s*\|\s*(\d+)\s*\|\s*([^)]*?)\s*\)\<close>
\<close>

definition relation_pattern :: rx where
  "relation_pattern = seqs [Lit ''(\"relationship\"'', Star Space, Lit ''|'', Star Space,
     Grp (Lazy NotPipe), Star Space, Lit ''|'', Star Space,
     Grp (Lazy NotPipe), Star Space, Lit ''|'', Star Space,
     Grp (Lazy NotPipe), Star Space, Lit ''|'', Star Space,
     Grp (Plus Digit), Star Space, Lit ''|'', Star Space,
     Grp (Lazy NotRParen), Star Space, Lit '')'']"

subsection \<open>validate_kg_data\<close>

text \<open>
  The first loop: it raises at the first entity with an empty name or type, and collects the
  names otherwise.
\<close>

fun check_entities :: "entity list \<Rightarrow> string set \<Rightarrow> log_msg list \<times> (py_error + string set)" where
  "check_entities [] entity_names = ([], Inr entity_names)"
| "check_entities (e # es) entity_names =
     (if entity_name e = [] then
        ([Error_empty_entity_name e], Inl (ValueError ''Entity name cannot be empty''))
      else if entity_type e = [] then
        ([Error_empty_entity_type e], Inl (ValueError ''Entity type cannot be empty''))
      else check_entities es (insert (entity_name e) entity_names))"

text \<open>
  The second loop: it raises at the first relationship with an empty endpoint, warns about
  empty keywords, and collects the endpoints that are no entity name.
\<close>

fun check_relationships ::
  "string set \<Rightarrow> relationship list \<Rightarrow> string set \<Rightarrow> log_msg list \<times> (py_error + string set)" where
  "check_relationships entity_names [] missing_entities = ([], Inr missing_entities)"
| "check_relationships entity_names (rel # rels) missing_entities =
     (if src_id rel = [] then
        ([Error_empty_source rel], Inl (ValueError ''Source ID cannot be empty''))
      else if tgt_id rel = [] then
        ([Error_empty_target rel], Inl (ValueError ''Target ID cannot be empty''))
      else
        let w = (if rel_keywords rel = [] then [Warn_no_keywords (src_id rel) (tgt_id rel)] else []);
            m1 = (if src_id rel \<notin> entity_names then insert (src_id rel) missing_entities
                  else missing_entities);
            m2 = (if tgt_id rel \<notin> entity_names then insert (tgt_id rel) m1 else m1);
            (l, res) = check_relationships entity_names rels m2
        in (w @ l, res))"

definition validate_kg_data ::
  "entity list \<Rightarrow> relationship list \<Rightarrow> chunk list \<Rightarrow> log_msg list \<times> (py_error + unit)" where
  "validate_kg_data es rels cs =
     (case check_entities es {} of
        (l1, Inl err) \<Rightarrow> (l1, Inl err)
      | (l1, Inr entity_names) \<Rightarrow>
          (case check_relationships entity_names rels {} of
             (l2, Inl err) \<Rightarrow> (l1 @ [Info_entities_valid] @ l2, Inl err)
           | (l2, Inr missing_entities) \<Rightarrow>
               let l3 = (if missing_entities \<noteq> {} then [Warn_undefined_entities missing_entities]
                         else [Info_relationships_valid]);
                   l = l1 @ [Info_entities_valid] @ l2 @ l3
               in if cs = [] then (l @ [Error_no_chunks], Inl (ValueError ''No chunks found''))
                  else (l @ [Info_chunks_valid (length cs)], Inr ())))"

subsection \<open>parse_kg_from_txt\<close>

text \<open>
  The state of the loop over the chunk markers: the three lists being built and the log.
\<close>

record parse_state =
  st_entities :: "entity list"
  st_relationships :: "relationship list"
  st_chunks :: "chunk list"
  st_log :: "log_msg list"

definition entity_of :: "string \<Rightarrow> string list \<Rightarrow> entity" where
  "entity_of sid g = \<lparr>entity_name = py_strip (g ! 0), entity_type = py_strip (g ! 1),
     description = py_strip (g ! 2), source_id = sid\<rparr>"

definition relationship_of :: "string \<Rightarrow> string list \<Rightarrow> relationship" where
  "relationship_of sid g = \<lparr>src_id = py_strip (g ! 0), tgt_id = py_strip (g ! 1),
     description = py_strip (g ! 2), rel_keywords = py_strip (g ! 4),
     weight = float_of_digits (g ! 3), source_id = sid\<rparr>"

definition extract_entities :: "string \<Rightarrow> string \<Rightarrow> entity list" where
  "extract_entities sid chunk_text = map (entity_of sid) (re_findall entity_pattern chunk_text)"

definition extract_relationships :: "string \<Rightarrow> string \<Rightarrow> relationship list" where
  "extract_relationships sid chunk_text =
     map (relationship_of sid) (re_findall relation_pattern chunk_text)"

text \<open>The text of the segment that follows marker \<open>idx\<close>, after \<open>strip\<close>.\<close>

definition chunk_text_at :: "string \<Rightarrow> re_match list \<Rightarrow> nat \<Rightarrow> string" where
  "chunk_text_at full_text matches idx =
     (let start_pos = m_end (matches ! idx);
          end_pos = (if idx + 1 < length matches then m_start (matches ! (idx + 1))
                     else length full_text)
      in py_strip (py_slice full_text start_pos end_pos))"

text \<open>
  One turn of the loop, on a segment that is not empty. The turn gives the new state, and the
  error when \<open>int(chunk_id)\<close> raises: the chunk record is then not appended, and nothing
  more is done.
\<close>

definition process_chunk ::
  "string \<Rightarrow> string \<Rightarrow> parse_state \<Rightarrow> parse_state \<times> py_error option" where
  "process_chunk chunk_id chunk_text st =
     (let sid = ''chunk_'' @ chunk_id;
          extract = (\<lambda>st1. st1\<lparr>st_entities := st_entities st1 @ extract_entities sid chunk_text,
                         st_relationships :=
                           st_relationships st1 @ extract_relationships sid chunk_text\<rparr>)
      in case re_search original_text_pattern chunk_text of
           Some mt \<Rightarrow>
             (let original_text = py_strip (m_groups mt ! 0)
              in case py_int chunk_id of
                   Inl err \<Rightarrow> (st, Some err)
                 | Inr n \<Rightarrow>
                     (extract
                        (st\<lparr>st_chunks := st_chunks st @
                              [\<lparr>content = original_text, source_id = sid,
                                source_chunk_index = n\<rparr>],
                            st_log := st_log st @
                              [Info_chunk_text chunk_id (length original_text)]\<rparr>),
                      None))
         | None \<Rightarrow>
             (extract (st\<lparr>st_log := st_log st @ [Warn_no_original_text chunk_id]\<rparr>), None))"

definition parse_step ::
  "string \<Rightarrow> re_match list \<Rightarrow> nat \<times> re_match \<Rightarrow> parse_state
     \<Rightarrow> parse_state \<times> py_error option" where
  "parse_step full_text matches = (\<lambda>(idx, mt) st.
     let chunk_id = m_groups mt ! 0;
         chunk_text = chunk_text_at full_text matches idx
     in if chunk_text = [] then (st\<lparr>st_log := st_log st @ [Warn_chunk_empty chunk_id]\<rparr>, None)
        else process_chunk chunk_id chunk_text st)"

text \<open>The loop over the markers stops at the first turn that raises.\<close>

fun parse_chunks ::
  "string \<Rightarrow> re_match list \<Rightarrow> (nat \<times> re_match) list \<Rightarrow> parse_state
     \<Rightarrow> parse_state \<times> py_error option" where
  "parse_chunks full_text matches [] st = (st, None)"
| "parse_chunks full_text matches (x # xs) st =
     (case parse_step full_text matches x st of
        (st', None) \<Rightarrow> parse_chunks full_text matches xs st'
      | (st', Some err) \<Rightarrow> (st', Some err))"

definition parse_loop :: "string \<Rightarrow> parse_state \<times> py_error option" where
  "parse_loop full_text =
     (let matches = re_finditer chunk_pattern full_text
      in parse_chunks full_text matches (enumerate 0 matches)
           \<lparr>st_entities = [], st_relationships = [], st_chunks = [],
            st_log = [Info_found_chunks (length matches)]\<rparr>)"

text \<open>
  The function takes the text of the file at \<open>txt_path\<close>. It returns what it logged, and
  either the error raised (by the loop or by the validator) or the payload.
\<close>

definition parse_kg_from_txt :: "string \<Rightarrow> log_msg list \<times> (py_error + kg_data)" where
  "parse_kg_from_txt full_text =
     (case parse_loop full_text of
        (st, Some err) \<Rightarrow> (st_log st, Inl err)
      | (st, None) \<Rightarrow>
          (let l = st_log st @ [Info_parsed (length (st_entities st))
                     (length (st_relationships st)) (length (st_chunks st))]
           in case validate_kg_data (st_entities st) (st_relationships st) (st_chunks st) of
                (lv, Inl err) \<Rightarrow> (l @ lv, Inl err)
              | (lv, Inr _) \<Rightarrow>
                  (l @ lv, Inr \<lparr>entities = st_entities st, relationships = st_relationships st,
                                 chunks = st_chunks st\<rparr>)))"

subsection \<open>Notions used in the statements about the loop\<close>

text \<open>
  The segments that the loop visits: for each marker, its chunk id and the stripped text between
  it and the next marker (or the end of the text).
\<close>

definition segments :: "string \<Rightarrow> (string \<times> string) list" where
  "segments full_text =
     (let matches = re_finditer chunk_pattern full_text
      in map (\<lambda>(idx, mt). (m_groups mt ! 0, chunk_text_at full_text matches idx))
           (enumerate 0 matches))"

text \<open>A segment on which \<open>int(chunk_id)\<close> is called and raises.\<close>

definition overlong :: "string \<times> string \<Rightarrow> bool" where
  "overlong = (\<lambda>(chunk_id, chunk_text). chunk_text \<noteq> [] \<and>
     re_search original_text_pattern chunk_text \<noteq> None \<and> length chunk_id > 4300)"

text \<open>The chunk records that a segment gives: one when the original text is found.\<close>

definition chunk_records :: "string \<Rightarrow> string \<Rightarrow> chunk list" where
  "chunk_records chunk_id chunk_text =
     (case re_search original_text_pattern chunk_text of
        Some mt \<Rightarrow> [\<lparr>content = py_strip (m_groups mt ! 0), source_id = ''chunk_'' @ chunk_id,
                     source_chunk_index = int (digits_value chunk_id)\<rparr>]
      | None \<Rightarrow> [])"

fun skipped_msg :: "log_msg \<Rightarrow> bool" where
  "skipped_msg (Warn_chunk_empty _) = True"
| "skipped_msg _ = False"

fun processed_msg :: "log_msg \<Rightarrow> bool" where
  "processed_msg (Info_chunk_text _ _) = True"
| "processed_msg (Warn_no_original_text _) = True"
| "processed_msg _ = False"

text \<open>A text with two markers, the second with a chunk id of 4301 digits.\<close>

definition long_id :: string where
  "long_id = replicate 4301 (CHR ''1'')"

definition long_id_text :: string where
  "long_id_text = ''No.: 1 of all the chunksoriginal text: a'' @
     ''No.: '' @ long_id @ '' of all the chunksoriginal text: b''"

section \<open>The retrieval log store\<close>

subsection \<open>Data model\<close>

text \<open>A value of the annotation \<open>Any\<close> inside a logged mapping is a JSON value.\<close>

datatype json =
    JNull
  | JBool bool
  | JNum rat
  | JStr string
  | JArr "json list"
  | JObj "(string \<times> json) list"

record RetrievalResult =
  query :: string
  query_mode :: string
  timestamp :: rat
  entities :: "(string \<times> json) list list"
  relationships :: "(string \<times> json) list list"
  text_chunks :: "(string \<times> json) list list"
  high_level_keywords :: "string list"
  low_level_keywords :: "string list"
  metadata :: "(string \<times> json) list"
  final_response :: "string option"

text \<open>
  The logger calls three library operations, which are parameters of the model:
  \<open>dump_result r\<close> is the text that \<open>json.dump(asdict(r), f, ensure_ascii=False)\<close> writes,
  \<open>load_result line\<close> is \<open>RetrievalResult(**json.loads(line))\<close>, with \<open>None\<close> when either
  call raises, and \<open>dump_array rs\<close> is the text that
  \<open>json.dump([asdict(r) for r in rs], f, ensure_ascii=False, indent=2)\<close> writes.
\<close>

record json_codec =
  dump_result :: "RetrievalResult \<Rightarrow> string"
  load_result :: "string \<Rightarrow> RetrievalResult option"
  dump_array :: "RetrievalResult list \<Rightarrow> string"

text \<open>
  The files are an association list from path to text; a write to a path always succeeds.
  The logger object keeps its directory and the path of its session file.
\<close>

type_synonym file_store = "(string \<times> string) list"

record RetrievalLogger =
  log_dir :: string
  log_file :: string

datatype store_msg =
    Warning_log_file_not_found string
  | Info_loaded nat string
  | Error_load_failed string
  | Warning_no_jsonl_files string
  | Info_found_jsonl_files nat
  | Info_reading string
  | Info_total_loaded nat
  | Info_exported nat string

subsection \<open>Reading a text file line by line\<close>

text \<open>
  A file opened for reading in text mode turns \<open>\r\n\<close> and a lone \<open>\r\<close> into \<open>\n\<close>, and
  iterating over it yields the lines, each with its \<open>\n\<close> (the last one may lack it).
\<close>

fun translate_newlines :: "string \<Rightarrow> string" where
  "translate_newlines [] = []"
| "translate_newlines [c] = (if c = CHR 0x0D then [CHR 0x0A] else [c])"
| "translate_newlines (c # d # s) =
     (if c = CHR 0x0D then
        (if d = CHR 0x0A then CHR 0x0A # translate_newlines s
         else CHR 0x0A # translate_newlines (d # s))
      else c # translate_newlines (d # s))"

fun split_lines :: "string \<Rightarrow> string \<Rightarrow> string list" where
  "split_lines cur [] = (if cur = [] then [] else [cur])"
| "split_lines cur (c # s) =
     (if c = CHR 0x0A then (cur @ [c]) # split_lines [] s else split_lines (cur @ [c]) s)"

definition file_lines :: "string \<Rightarrow> string list" where
  "file_lines text = split_lines [] (translate_newlines text)"

subsection \<open>log_retrieval\<close>

text \<open>
  Opening in mode \<open>'a'\<close> creates the file when it is missing; the record and a newline are
  appended.
\<close>

definition log_retrieval ::
  "json_codec \<Rightarrow> RetrievalLogger \<Rightarrow> file_store \<Rightarrow> RetrievalResult \<Rightarrow> file_store" where
  "log_retrieval cd self fs retrieval_result =
     (let old = (case map_of fs (log_file self) of None \<Rightarrow> [] | Some text \<Rightarrow> text)
      in AList.update (log_file self) (old @ dump_result cd retrieval_result @ [CHR 0x0A]) fs)"

subsection \<open>load_logs\<close>

text \<open>
  The loop over the lines: a blank line is passed over, and the first line that does not load
  raises, which is \<open>None\<close> here.
\<close>

fun load_lines ::
  "json_codec \<Rightarrow> string list \<Rightarrow> RetrievalResult list \<Rightarrow> RetrievalResult list option" where
  "load_lines cd [] results = Some results"
| "load_lines cd (line # lines) results =
     (if py_strip line \<noteq> [] then
        (case load_result cd line of
           None \<Rightarrow> None
         | Some r \<Rightarrow> load_lines cd lines (results @ [r]))
      else load_lines cd lines results)"

text \<open>
  \<open>Path(log_file) if log_file else self.log_file\<close>: the session file stands in for a
  missing argument and for the empty string.
\<close>

definition file_path_of :: "RetrievalLogger \<Rightarrow> string option \<Rightarrow> string" where
  "file_path_of self log_file_arg =
     (case log_file_arg of
        None \<Rightarrow> log_file self
      | Some p \<Rightarrow> if p \<noteq> [] then p else log_file self)"

definition load_logs ::
  "json_codec \<Rightarrow> RetrievalLogger \<Rightarrow> file_store \<Rightarrow> string option
     \<Rightarrow> store_msg list \<times> RetrievalResult list" where
  "load_logs cd self fs log_file_arg =
     (let file_path = file_path_of self log_file_arg
      in case map_of fs file_path of
           None \<Rightarrow> ([Warning_log_file_not_found file_path], [])
         | Some text \<Rightarrow>
             (case load_lines cd (file_lines text) [] of
                Some results \<Rightarrow> ([Info_loaded (length results) file_path], results)
              | None \<Rightarrow> ([Error_load_failed file_path], [])))"

subsection \<open>export_to_json\<close>

text \<open>
  The files that \<open>self.log_dir.glob("retrieval_log_*.jsonl")\<close> finds: the paths made of the
  directory, a separator and a name that starts with \<open>retrieval_log_\<close> and ends with
  \<open>.jsonl\<close>.
\<close>

definition ends_with :: "string \<Rightarrow> string \<Rightarrow> bool" where
  "ends_with suffix s = (lit_match (rev suffix) (rev s) \<noteq> None)"

definition is_session_log :: "string \<Rightarrow> string \<Rightarrow> bool" where
  "is_session_log dir p =
     (case lit_match (dir @ ''/retrieval_log_'') p of
        None \<Rightarrow> False
      | Some rest \<Rightarrow> CHR ''/'' \<notin> set rest \<and> ends_with ''.jsonl'' rest)"

definition glob_session_logs :: "RetrievalLogger \<Rightarrow> file_store \<Rightarrow> string list" where
  "glob_session_logs self fs = filter (is_session_log (log_dir self)) (map fst fs)"

definition export_to_json ::
  "json_codec \<Rightarrow> RetrievalLogger \<Rightarrow> file_store \<Rightarrow> string \<Rightarrow> string option
     \<Rightarrow> store_msg list \<times> file_store" where
  "export_to_json cd self fs output_file log_file_arg =
     (case log_file_arg of
        None \<Rightarrow>
          (let jsonl_files = sort (glob_session_logs self fs)
           in if jsonl_files = [] then ([Warning_no_jsonl_files (log_dir self)], fs)
              else
                let loaded = map (\<lambda>f. load_logs cd self fs (Some f)) jsonl_files;
                    all_results = concat (map snd loaded);
                    l = Info_found_jsonl_files (length jsonl_files) #
                        concat (map (\<lambda>(f, ld). Info_reading f # fst ld) (zip jsonl_files loaded)) @
                        [Info_total_loaded (length all_results)]
                in (l @ [Info_exported (length all_results) output_file],
                    AList.update output_file (dump_array cd all_results) fs))
      | Some lf \<Rightarrow>
          (let (l, all_results) = load_logs cd self fs (Some lf)
           in (l @ [Info_exported (length all_results) output_file],
               AList.update output_file (dump_array cd all_results) fs)))"

subsection \<open>get_statistics\<close>

text \<open>
  The mapping returned for a log with records; the empty mapping returned otherwise is
  \<open>None\<close>. The quotient of two integers is kept as a rational number.
\<close>

record statistics =
  total_queries :: nat
  mode_distribution :: "string \<rightharpoonup> nat"
  avg_entities_per_query :: rat
  avg_relationships_per_query :: rat
  avg_chunks_per_query :: rat
  queries_with_no_results :: nat

record stats_loop =
  sl_mode_distribution :: "string \<rightharpoonup> nat"
  total_entities :: nat
  total_relationships :: nat
  total_chunks :: nat
  sl_queries_with_no_results :: nat

definition stats_step :: "RetrievalResult \<Rightarrow> stats_loop \<Rightarrow> stats_loop" where
  "stats_step result sl =
     (let mode = query_mode result;
          md = (sl_mode_distribution sl)
                 (mode \<mapsto> (case sl_mode_distribution sl mode of None \<Rightarrow> 0 | Some n \<Rightarrow> n) + 1)
      in \<lparr>sl_mode_distribution = md,
          total_entities = total_entities sl + length (RetrievalResult.entities result),
          total_relationships =
            total_relationships sl + length (RetrievalResult.relationships result),
          total_chunks = total_chunks sl + length (text_chunks result),
          sl_queries_with_no_results =
            (if RetrievalResult.entities result = [] \<and> RetrievalResult.relationships result = []
                \<and> text_chunks result = []
             then sl_queries_with_no_results sl + 1 else sl_queries_with_no_results sl)\<rparr>)"

definition get_statistics ::
  "json_codec \<Rightarrow> RetrievalLogger \<Rightarrow> file_store \<Rightarrow> string option \<Rightarrow> statistics option" where
  "get_statistics cd self fs log_file_arg =
     (let results = snd (load_logs cd self fs log_file_arg)
      in if results = [] then None
         else
           let sl = fold stats_step results
                      \<lparr>sl_mode_distribution = Map.empty, total_entities = 0,
                       total_relationships = 0, total_chunks = 0,
                       sl_queries_with_no_results = 0\<rparr>
           in Some \<lparr>total_queries = length results,
                    mode_distribution = sl_mode_distribution sl,
                    avg_entities_per_query = of_nat (total_entities sl) / of_nat (length results),
                    avg_relationships_per_query =
                      of_nat (total_relationships sl) / of_nat (length results),
                    avg_chunks_per_query = of_nat (total_chunks sl) / of_nat (length results),
                    queries_with_no_results = sl_queries_with_no_results sl\<rparr>)"

subsection \<open>A small codec and logger for closed instances\<close>




section \<open>Properties of the parse loop\<close>

lemma process_chunk_overlong:
  assumes "re_search original_text_pattern t \<noteq> None" and "length cid > 4300"
  shows "process_chunk cid t st = (st, Some (int_limit_error (length cid)))"
  using assms by (auto simp: process_chunk_def py_int_def Let_def)

lemma process_chunk_regular:
  assumes "\<not> (re_search original_text_pattern t \<noteq> None \<and> length cid > 4300)"
  shows "snd (process_chunk cid t st) = None"
    and "st_entities (fst (process_chunk cid t st)) =
           st_entities st @ extract_entities (''chunk_'' @ cid) t"
    and "st_relationships (fst (process_chunk cid t st)) =
           st_relationships st @ extract_relationships (''chunk_'' @ cid) t"
    and "st_chunks (fst (process_chunk cid t st)) = st_chunks st @ chunk_records cid t"
    and "filter processed_msg (st_log (fst (process_chunk cid t st))) =
           filter processed_msg (st_log st) @
             [case re_search original_text_pattern t of
                Some mt \<Rightarrow> Info_chunk_text cid (length (py_strip (m_groups mt ! 0)))
              | None \<Rightarrow> Warn_no_original_text cid]"
    and "filter skipped_msg (st_log (fst (process_chunk cid t st))) =
           filter skipped_msg (st_log st)"
  using assms
  by (auto simp: process_chunk_def py_int_def chunk_records_def Let_def split: option.splits)

text \<open>What a segment adds to the three lists.\<close>

lemma parse_step_segment:
  "parse_step full_text matches (idx, mt) st =
     (let cid = m_groups mt ! 0; t = chunk_text_at full_text matches idx
      in if t = [] then (st\<lparr>st_log := st_log st @ [Warn_chunk_empty cid]\<rparr>, None)
         else process_chunk cid t st)"
  by (simp add: parse_step_def)

lemma parse_chunks_characterised:
  fixes full_text matches
  defines "seg \<equiv> \<lambda>(idx, mt). (m_groups mt ! 0, chunk_text_at full_text matches idx)"
  defines "pre \<equiv> \<lambda>xs. takeWhile (\<lambda>s. \<not> overlong s) (map seg xs)"
  defines "kept \<equiv> \<lambda>xs. filter (\<lambda>(cid, t). t \<noteq> []) (pre xs)"
  shows "(st_entities (fst (parse_chunks full_text matches xs st)) =
       st_entities st @ concat (map (\<lambda>(cid, t). extract_entities (''chunk_'' @ cid) t) (kept xs))) \<and>
     (st_relationships (fst (parse_chunks full_text matches xs st)) =
       st_relationships st @
       concat (map (\<lambda>(cid, t). extract_relationships (''chunk_'' @ cid) t) (kept xs))) \<and>
     (st_chunks (fst (parse_chunks full_text matches xs st)) =
       st_chunks st @ concat (map (\<lambda>(cid, t). chunk_records cid t) (kept xs))) \<and>
     (length (filter processed_msg (st_log (fst (parse_chunks full_text matches xs st)))) =
       length (filter processed_msg (st_log st)) + length (kept xs)) \<and>
     (filter skipped_msg (st_log (fst (parse_chunks full_text matches xs st))) =
       filter skipped_msg (st_log st) @
       map (\<lambda>(cid, t). Warn_chunk_empty cid) (filter (\<lambda>(cid, t). t = []) (pre xs))) \<and>
     (snd (parse_chunks full_text matches xs st) =
       (case dropWhile (\<lambda>s. \<not> overlong s) (map seg xs) of
          [] \<Rightarrow> None
        | (cid, t) # _ \<Rightarrow> Some (int_limit_error (length cid))))"
proof (induction xs arbitrary: st)
  case Nil
  show ?case by (simp add: kept_def pre_def)
next
  case (Cons x xs)
  obtain idx mt where x: "x = (idx, mt)" by (cases x)
  define cid where "cid = m_groups mt ! 0"
  define t where "t = chunk_text_at full_text matches idx"
  have sx: "seg x = (cid, t)" by (simp add: seg_def x cid_def t_def)
  have step: "parse_step full_text matches x st =
      (if t = [] then (st\<lparr>st_log := st_log st @ [Warn_chunk_empty cid]\<rparr>, None)
       else process_chunk cid t st)"
    by (simp add: x parse_step_segment cid_def t_def)
  consider (empty) "t = []" | (over) "t \<noteq> []" "overlong (cid, t)"
    | (regular) "t \<noteq> []" "\<not> overlong (cid, t)" by blast
  then show ?case
  proof cases
    case empty
    then have no: "\<not> overlong (cid, t)" by (simp add: overlong_def)
    from empty have pc: "parse_chunks full_text matches (x # xs) st =
        parse_chunks full_text matches xs (st\<lparr>st_log := st_log st @ [Warn_chunk_empty cid]\<rparr>)"
      by (simp add: step)
    show ?thesis
      using empty no unfolding pc
      by (simp add: Cons.IH kept_def pre_def sx del: parse_chunks.simps)
  next
    case over
    then have o: "re_search original_text_pattern t \<noteq> None" "length cid > 4300"
      by (auto simp: overlong_def)
    from over(1) have pc: "parse_chunks full_text matches (x # xs) st =
        (st, Some (int_limit_error (length cid)))"
      by (simp add: step process_chunk_overlong [OF o])
    show ?thesis
      using over unfolding pc by (simp add: kept_def pre_def sx)
  next
    case regular
    then have r: "\<not> (re_search original_text_pattern t \<noteq> None \<and> length cid > 4300)"
      by (auto simp: overlong_def)
    obtain st' where p: "process_chunk cid t st = (st', None)"
      using process_chunk_regular(1) [OF r, of st] by (cases "process_chunk cid t st") auto
    with regular(1) have pc: "parse_chunks full_text matches (x # xs) st =
        parse_chunks full_text matches xs st'"
      by (simp add: step)
    have f: "fst (process_chunk cid t st) = st'" by (simp add: p)
    note pr = process_chunk_regular(2-6) [OF r, of st, unfolded f]
    show ?thesis
      using regular unfolding pc
      by (simp add: Cons.IH kept_def pre_def sx pr del: parse_chunks.simps)
  qed
qed

section \<open>Properties of the validator and of the parse as a whole\<close>

lemma check_entities_raises:
  "(\<exists>err. snd (check_entities es names) = Inl err) \<longleftrightarrow> (\<exists>e \<in> set es. entity_name e = [] \<or> entity_type e = [])"
  by (induction es arbitrary: names) auto

lemma check_entities_names:
  "snd (check_entities es names) = Inr names' \<Longrightarrow> names' = names \<union> entity_name ` set es"
  by (induction es arbitrary: names) (auto split: if_splits)

lemma check_entities_error:
  "snd (check_entities es names) = Inl err \<Longrightarrow>
     err = ValueError ''Entity name cannot be empty'' \<or> err = ValueError ''Entity type cannot be empty''"
  by (induction es arbitrary: names) (auto split: if_splits)

lemma check_relationships_raises:
  "(\<exists>err. snd (check_relationships names rels missing) = Inl err) \<longleftrightarrow>
     (\<exists>r \<in> set rels. src_id r = [] \<or> tgt_id r = [])"
  by (induction rels arbitrary: missing)
     (auto simp: Let_def case_prod_beta)

lemma check_relationships_missing:
  "snd (check_relationships names rels missing) = Inr missing' \<Longrightarrow>
     missing' = missing \<union> ((src_id ` set rels \<union> tgt_id ` set rels) - names)"
  by (induction rels arbitrary: missing)
     (auto simp: Let_def case_prod_beta split: if_splits)

lemma check_relationships_error:
  "snd (check_relationships names rels missing) = Inl err \<Longrightarrow>
     err = ValueError ''Source ID cannot be empty'' \<or> err = ValueError ''Target ID cannot be empty''"
  by (induction rels arbitrary: missing)
     (auto simp: Let_def case_prod_beta split: if_splits)

lemma check_relationships_log:
  "Warn_undefined_entities M \<notin> set (fst (check_relationships names rels missing))"
  by (induction rels arbitrary: missing) (simp_all add: Let_def case_prod_beta)

lemma check_entities_log:
  "Warn_undefined_entities M \<notin> set (fst (check_entities es names))"
  by (induction es arbitrary: names) (auto simp: Let_def split: prod.splits if_splits)


lemma check_entities_complete:
  "\<forall>e \<in> set es. entity_name e \<noteq> [] \<and> entity_type e \<noteq> [] \<Longrightarrow>
     check_entities es names = ([], Inr (names \<union> entity_name ` set es))"
  by (induction es arbitrary: names) auto

lemma validate_kg_data_entities_raise:
  assumes "\<exists>e \<in> set es. entity_name e = [] \<or> entity_type e = []"
  shows "\<exists>l err. validate_kg_data es rels cs = (l, Inl err) \<and>
           (\<forall>M. Warn_undefined_entities M \<notin> set l) \<and>
           (err = ValueError ''Entity name cannot be empty'' \<or>
            err = ValueError ''Entity type cannot be empty'')"
proof -
  from assms check_entities_raises [of es "{}"]
  obtain err where e: "snd (check_entities es {}) = Inl err" by auto
  obtain l where l: "check_entities es {} = (l, Inl err)"
    using e by (cases "check_entities es {}") auto
  then have "validate_kg_data es rels cs = (l, Inl err)"
    by (simp add: validate_kg_data_def)
  moreover have "\<forall>M. Warn_undefined_entities M \<notin> set l"
    using check_entities_log [of _ es "{}"] l by simp
  ultimately show ?thesis using check_entities_error [OF e] by blast
qed

lemma validate_kg_data_relationships_raise:
  assumes "\<forall>e \<in> set es. entity_name e \<noteq> [] \<and> entity_type e \<noteq> []"
    and "\<exists>r \<in> set rels. src_id r = [] \<or> tgt_id r = []"
  shows "\<exists>l err. validate_kg_data es rels cs = (l, Inl err) \<and>
           (\<forall>M. Warn_undefined_entities M \<notin> set l) \<and>
           (err = ValueError ''Source ID cannot be empty'' \<or>
            err = ValueError ''Target ID cannot be empty'')"
proof -
  let ?names = "entity_name ` set es"
  let ?c = "check_relationships ?names rels {}"
  from assms(2) check_relationships_raises [of ?names rels "{}"]
  obtain err where e: "snd ?c = Inl err" by auto
  obtain l where c: "?c = (l, Inl err)" using e by (cases ?c) auto
  have "validate_kg_data es rels cs = (Info_entities_valid # l, Inl err)"
    unfolding validate_kg_data_def check_entities_complete [OF assms(1)]
    using c by simp
  moreover have "\<forall>M. Warn_undefined_entities M \<notin> set (Info_entities_valid # l)"
    using check_relationships_log [of _ ?names rels "{}"] c by simp
  ultimately show ?thesis using check_relationships_error [OF e] by blast
qed

lemma validate_kg_data_complete:
  assumes "\<forall>e \<in> set es. entity_name e \<noteq> [] \<and> entity_type e \<noteq> []"
    and "\<forall>r \<in> set rels. src_id r \<noteq> [] \<and> tgt_id r \<noteq> []"
  defines "D \<equiv> (src_id ` set rels \<union> tgt_id ` set rels) - entity_name ` set es"
  shows "\<exists>l. validate_kg_data es rels cs =
           (l @ [if D \<noteq> {} then Warn_undefined_entities D else Info_relationships_valid,
                 if cs = [] then Error_no_chunks else Info_chunks_valid (length cs)],
            if cs = [] then Inl (ValueError ''No chunks found'') else Inr ())
         \<and> (\<forall>M. Warn_undefined_entities M \<notin> set l)"
proof -
  let ?names = "entity_name ` set es"
  let ?c = "check_relationships ?names rels {}"
  from assms(2) check_relationships_raises [of ?names rels "{}"]
  obtain missing where m: "snd ?c = Inr missing" by (cases "snd ?c") auto
  from check_relationships_missing [OF m] have md: "missing = D" by (simp add: D_def)
  obtain l where c: "?c = (l, Inr missing)" using m by (cases ?c) auto
  have "validate_kg_data es rels cs =
      ((Info_entities_valid # l) @
         [if D \<noteq> {} then Warn_undefined_entities D else Info_relationships_valid,
          if cs = [] then Error_no_chunks else Info_chunks_valid (length cs)],
       if cs = [] then Inl (ValueError ''No chunks found'') else Inr ())"
    unfolding validate_kg_data_def check_entities_complete [OF assms(1)]
    using c md by (simp add: Let_def)
  moreover have "\<forall>M. Warn_undefined_entities M \<notin> set (Info_entities_valid # l)"
    using check_relationships_log [of _ ?names rels "{}"] c by simp
  ultimately show ?thesis by blast
qed

lemma validate_kg_data_cases:
  obtains (entity) l err where
      "\<exists>e \<in> set es. entity_name e = [] \<or> entity_type e = []"
      "validate_kg_data es rels cs = (l, Inl err)"
      "\<forall>M. Warn_undefined_entities M \<notin> set l"
      "err = ValueError ''Entity name cannot be empty'' \<or>
       err = ValueError ''Entity type cannot be empty''"
  | (relationship) l err where
      "\<forall>e \<in> set es. entity_name e \<noteq> [] \<and> entity_type e \<noteq> []"
      "\<exists>r \<in> set rels. src_id r = [] \<or> tgt_id r = []"
      "validate_kg_data es rels cs = (l, Inl err)"
      "\<forall>M. Warn_undefined_entities M \<notin> set l"
      "err = ValueError ''Source ID cannot be empty'' \<or>
       err = ValueError ''Target ID cannot be empty''"
  | (complete) l where
      "\<forall>e \<in> set es. entity_name e \<noteq> [] \<and> entity_type e \<noteq> []"
      "\<forall>r \<in> set rels. src_id r \<noteq> [] \<and> tgt_id r \<noteq> []"
      "validate_kg_data es rels cs =
         (l @ [if (src_id ` set rels \<union> tgt_id ` set rels) - entity_name ` set es \<noteq> {}
               then Warn_undefined_entities
                      ((src_id ` set rels \<union> tgt_id ` set rels) - entity_name ` set es)
               else Info_relationships_valid,
               if cs = [] then Error_no_chunks else Info_chunks_valid (length cs)],
          if cs = [] then Inl (ValueError ''No chunks found'') else Inr ())"
      "\<forall>M. Warn_undefined_entities M \<notin> set l"
proof (cases "\<exists>e \<in> set es. entity_name e = [] \<or> entity_type e = []")
  case True
  from validate_kg_data_entities_raise [OF True, of rels cs] True entity show ?thesis by blast
next
  case False
  then have ok: "\<forall>e \<in> set es. entity_name e \<noteq> [] \<and> entity_type e \<noteq> []" by blast
  show ?thesis
  proof (cases "\<exists>r \<in> set rels. src_id r = [] \<or> tgt_id r = []")
    case True
    from validate_kg_data_relationships_raise [OF ok True, of cs] ok True relationship
    show ?thesis by blast
  next
    case nr: False
    then have ok2: "\<forall>r \<in> set rels. src_id r \<noteq> [] \<and> tgt_id r \<noteq> []" by blast
    from validate_kg_data_complete [OF ok ok2, of cs] ok ok2 complete show ?thesis by blast
  qed
qed

lemma validate_kg_data_raises:
  "(\<exists>err. snd (validate_kg_data es rels cs) = Inl err) \<longleftrightarrow>
     (\<exists>e \<in> set es. entity_name e = [] \<or> entity_type e = []) \<or>
     (\<exists>r \<in> set rels. src_id r = [] \<or> tgt_id r = []) \<or> cs = []"
proof (cases rule: validate_kg_data_cases [of es rels cs])
  case (entity l err)
  then show ?thesis by auto
next
  case (relationship l err)
  then show ?thesis by auto
next
  case (complete l)
  from complete(3) have "snd (validate_kg_data es rels cs) =
      (if cs = [] then Inl (ValueError ''No chunks found'') else Inr ())" by simp
  with complete(1,2) show ?thesis by auto
qed

lemma validate_kg_data_error:
  assumes "snd (validate_kg_data es rels cs) = Inl err"
  shows "err \<in> {ValueError ''Entity name cannot be empty'', ValueError ''Entity type cannot be empty'',
            ValueError ''Source ID cannot be empty'', ValueError ''Target ID cannot be empty'',
            ValueError ''No chunks found''}"
proof (cases rule: validate_kg_data_cases [of es rels cs])
  case (entity l err')
  with assms show ?thesis by auto
next
  case (relationship l err')
  with assms show ?thesis by auto
next
  case (complete l)
  from complete(3) have "snd (validate_kg_data es rels cs) =
      (if cs = [] then Inl (ValueError ''No chunks found'') else Inr ())" by simp
  with assms show ?thesis by (auto split: if_splits)
qed

lemma validate_kg_data_warning:
  assumes w: "Warn_undefined_entities M \<in> set (fst (validate_kg_data es rels cs))"
  shows "M = (src_id ` set rels \<union> tgt_id ` set rels) - entity_name ` set es"
proof (cases rule: validate_kg_data_cases [of es rels cs])
  case (entity l err)
  with w show ?thesis by auto
next
  case (relationship l err)
  with w show ?thesis by auto
next
  case (complete l)
  from w complete(4) show ?thesis
    unfolding complete(3) by (auto split: if_splits)
qed

lemma parse_kg_from_txt_result:
  "snd (parse_kg_from_txt full_text) =
     (case snd (parse_loop full_text) of
        Some err \<Rightarrow> Inl err
      | None \<Rightarrow>
          (case snd (validate_kg_data (st_entities (fst (parse_loop full_text)))
                       (st_relationships (fst (parse_loop full_text)))
                       (st_chunks (fst (parse_loop full_text)))) of
             Inl err \<Rightarrow> Inl err
           | Inr _ \<Rightarrow> Inr \<lparr>kg_data.entities = st_entities (fst (parse_loop full_text)),
                           kg_data.relationships = st_relationships (fst (parse_loop full_text)),
                           chunks = st_chunks (fst (parse_loop full_text))\<rparr>))"
proof -
  obtain st e where p: "parse_loop full_text = (st, e)" by (cases "parse_loop full_text")
  obtain lv v where q: "validate_kg_data (st_entities st) (st_relationships st) (st_chunks st) = (lv, v)"
    by (cases "validate_kg_data (st_entities st) (st_relationships st) (st_chunks st)")
  show ?thesis
    by (cases e; cases v) (simp_all add: parse_kg_from_txt_def Let_def p q)
qed

lemma segments_enumerate:
  "segments full_text =
     map (\<lambda>(idx, mt). (m_groups mt ! 0,
            chunk_text_at full_text (re_finditer chunk_pattern full_text) idx))
       (enumerate 0 (re_finditer chunk_pattern full_text))"
  by (simp add: segments_def Let_def)

lemma parse_loop_error:
  "snd (parse_loop full_text) =
     (case dropWhile (\<lambda>s. \<not> overlong s) (segments full_text) of
        [] \<Rightarrow> None
      | (cid, t) # _ \<Rightarrow> Some (int_limit_error (length cid)))"
  unfolding parse_loop_def Let_def segments_enumerate
  using parse_chunks_characterised [of full_text "re_finditer chunk_pattern full_text"]
  by blast

lemma parse_loop_raises_iff:
  "snd (parse_loop full_text) \<noteq> None \<longleftrightarrow> (\<exists>s \<in> set (segments full_text). overlong s)"
proof -
  have a: "dropWhile (\<lambda>s. \<not> overlong s) (segments full_text) = [] \<longleftrightarrow>
      \<not> (\<exists>s \<in> set (segments full_text). overlong s)"
    by (auto simp: dropWhile_eq_Nil_conv)
  show ?thesis
  proof (cases "dropWhile (\<lambda>s. \<not> overlong s) (segments full_text)")
    case Nil
    from Nil a have n: "\<not> (\<exists>s \<in> set (segments full_text). overlong s)" by blast
    have "snd (parse_loop full_text) = None" unfolding parse_loop_error Nil by simp
    with n show ?thesis by blast
  next
    case (Cons x rest)
    from Cons a have n: "\<exists>s \<in> set (segments full_text). overlong s" by auto
    have "snd (parse_loop full_text) \<noteq> None"
      unfolding parse_loop_error Cons by (simp add: case_prod_beta)
    with n show ?thesis by blast
  qed
qed

lemma parse_loop_raises_limit:
  assumes "snd (parse_loop full_text) = Some err"
  shows "\<exists>n > 4300. err = int_limit_error n"
proof -
  from assms obtain x rest where
    d0: "dropWhile (\<lambda>s. \<not> overlong s) (segments full_text) = x # rest"
    unfolding parse_loop_error
    by (cases "dropWhile (\<lambda>s. \<not> overlong s) (segments full_text)") simp_all
  obtain cid t where x: "x = (cid, t)" by (cases x)
  note d = d0 [unfolded x]
  from assms have e: "err = int_limit_error (length cid)"
    unfolding parse_loop_error d by simp
  from d have "overlong (hd (dropWhile (\<lambda>s. \<not> overlong s) (segments full_text)))"
    using hd_dropWhile [of "\<lambda>s. \<not> overlong s" "segments full_text"] by auto
  with d have "length cid > 4300" by (simp add: overlong_def)
  with e show ?thesis by blast
qed

text \<open>
  Claim C1, as amended. The loop of \<open>parse_kg_from_txt\<close> raises exactly when the text has a
  segment that is not empty, holds the original text and has a chunk id of more than 4300
  digits: \<open>int(chunk_id)\<close> then raises a \<open>ValueError\<close>, which is the result of the call, and
  no payload is returned. When the loop does not raise, the call raises, and returns no payload,
  if and only if one of the extracted entities has an empty name or an empty type, one of the
  extracted relationships has an empty \<open>src_id\<close> or \<open>tgt_id\<close>, or no chunk record was produced;
  the error is then one of the five that \<open>validate_kg_data\<close> raises.
\<close>

theorem parse_kg_from_txt_raises_cases:
  "(let st = fst (parse_loop full_text);
        loop_err = snd (parse_loop full_text);
        incomplete = ((\<exists>e \<in> set (st_entities st). entity_name e = [] \<or> entity_type e = []) \<or>
                      (\<exists>r \<in> set (st_relationships st). src_id r = [] \<or> tgt_id r = []) \<or>
                      st_chunks st = [])
    in (loop_err \<noteq> None \<longleftrightarrow> (\<exists>s \<in> set (segments full_text). overlong s)) \<and>
       (\<forall>err. loop_err = Some err \<longrightarrow>
          snd (parse_kg_from_txt full_text) = Inl err \<and> (\<exists>n > 4300. err = int_limit_error n)) \<and>
       (loop_err = None \<longrightarrow>
          ((\<exists>err. snd (parse_kg_from_txt full_text) = Inl err) \<longleftrightarrow> incomplete) \<and>
          ((\<exists>payload. snd (parse_kg_from_txt full_text) = Inr payload) \<longleftrightarrow> \<not> incomplete) \<and>
          (\<forall>err. snd (parse_kg_from_txt full_text) = Inl err \<longrightarrow>
             err \<in> {ValueError ''Entity name cannot be empty'',
                    ValueError ''Entity type cannot be empty'',
                    ValueError ''Source ID cannot be empty'',
                    ValueError ''Target ID cannot be empty'',
                    ValueError ''No chunks found''})))"
proof -
  let ?st = "fst (parse_loop full_text)"
  let ?v = "snd (validate_kg_data (st_entities ?st) (st_relationships ?st) (st_chunks ?st))"
  have a: "snd (parse_loop full_text) \<noteq> None \<longleftrightarrow> (\<exists>s \<in> set (segments full_text). overlong s)"
    by (rule parse_loop_raises_iff)
  have b: "\<forall>err. snd (parse_loop full_text) = Some err \<longrightarrow>
      snd (parse_kg_from_txt full_text) = Inl err \<and> (\<exists>n > 4300. err = int_limit_error n)"
    using parse_loop_raises_limit by (auto simp: parse_kg_from_txt_result)
  have c: "((\<exists>err. snd (parse_kg_from_txt full_text) = Inl err) \<longleftrightarrow> (\<exists>err. ?v = Inl err)) \<and>
      ((\<exists>payload. snd (parse_kg_from_txt full_text) = Inr payload) \<longleftrightarrow> \<not> (\<exists>err. ?v = Inl err)) \<and>
      (\<forall>err. snd (parse_kg_from_txt full_text) = Inl err \<longrightarrow> ?v = Inl err)"
    if "snd (parse_loop full_text) = None"
    using that by (simp add: parse_kg_from_txt_result split: sum.splits)
  have m: "\<forall>err. snd (parse_kg_from_txt full_text) = Inl err \<longrightarrow>
          err \<in> {ValueError ''Entity name cannot be empty'',
                 ValueError ''Entity type cannot be empty'',
                 ValueError ''Source ID cannot be empty'',
                 ValueError ''Target ID cannot be empty'',
                 ValueError ''No chunks found''}"
    if "snd (parse_loop full_text) = None"
  proof (intro allI impI)
    fix err
    assume "snd (parse_kg_from_txt full_text) = Inl err"
    with c [OF that] have "?v = Inl err" by blast
    from validate_kg_data_error [OF this]
    show "err \<in> {ValueError ''Entity name cannot be empty'',
                 ValueError ''Entity type cannot be empty'',
                 ValueError ''Source ID cannot be empty'',
                 ValueError ''Target ID cannot be empty'',
                 ValueError ''No chunks found''}" .
  qed
  show ?thesis
    unfolding Let_def
  proof (intro conjI impI)
    show "snd (parse_loop full_text) \<noteq> None \<longleftrightarrow> (\<exists>s \<in> set (segments full_text). overlong s)"
      by (rule a)
    show "\<forall>err. snd (parse_loop full_text) = Some err \<longrightarrow>
      snd (parse_kg_from_txt full_text) = Inl err \<and> (\<exists>n > 4300. err = int_limit_error n)"
      by (rule b)
  next
    assume n: "snd (parse_loop full_text) = None"
    from c [OF n] show "(\<exists>err. snd (parse_kg_from_txt full_text) = Inl err) \<longleftrightarrow>
        (\<exists>e \<in> set (st_entities ?st). entity_name e = [] \<or> entity_type e = []) \<or>
        (\<exists>r \<in> set (st_relationships ?st). src_id r = [] \<or> tgt_id r = []) \<or> st_chunks ?st = []"
      by (simp add: validate_kg_data_raises)
  next
    assume n: "snd (parse_loop full_text) = None"
    from c [OF n] show "(\<exists>payload. snd (parse_kg_from_txt full_text) = Inr payload) \<longleftrightarrow>
        \<not> ((\<exists>e \<in> set (st_entities ?st). entity_name e = [] \<or> entity_type e = []) \<or>
        (\<exists>r \<in> set (st_relationships ?st). src_id r = [] \<or> tgt_id r = []) \<or> st_chunks ?st = [])"
      by (simp add: validate_kg_data_raises)
  next
    assume n: "snd (parse_loop full_text) = None"
    from m [OF n] show "\<forall>err. snd (parse_kg_from_txt full_text) = Inl err \<longrightarrow>
          err \<in> {ValueError ''Entity name cannot be empty'',
                 ValueError ''Entity type cannot be empty'',
                 ValueError ''Source ID cannot be empty'',
                 ValueError ''Target ID cannot be empty'',
                 ValueError ''No chunks found''}" .
  qed
qed

lemma parse_loop_small_example:
  "snd (parse_loop ''No.: 1 of all the chunkso(\"entity\"||t|d)'') = None"
  "st_entities (fst (parse_loop ''No.: 1 of all the chunkso(\"entity\"||t|d)'')) =
     [\<lparr>entity_name = [], entity_type = ''t'', description = ''d'', source_id = ''chunk_1''\<rparr>]"
  by code_simp+

theorem parse_kg_from_txt_raises_cases_witness:
  "(\<exists>err. snd (parse_kg_from_txt ''No.: 1 of all the chunkso(\"entity\"||t|d)'') = Inl err) \<and>
   (\<exists>e \<in> set (st_entities (fst (parse_loop ''No.: 1 of all the chunkso(\"entity\"||t|d)''))).
      entity_name e = [])"
  using parse_kg_from_txt_raises_cases [of "''No.: 1 of all the chunkso(\"entity\"||t|d)''"]
  by (simp add: Let_def parse_loop_small_example)

text \<open>
  Claim C2. The set of missing references that the validator reports is exactly the set of
  the \<open>src_id\<close> and \<open>tgt_id\<close> values minus the set of the entity names; it is reported as a
  warning whenever it is not empty and the two loops run to their end; it never makes the
  validator raise; and the payload returned holds every relationship that was extracted.
\<close>

theorem validator_missing_references:
  "(let D = (src_id ` set rels \<union> tgt_id ` set rels) - entity_name ` set es;
        complete = ((\<forall>e \<in> set es. entity_name e \<noteq> [] \<and> entity_type e \<noteq> []) \<and>
                    (\<forall>r \<in> set rels. src_id r \<noteq> [] \<and> tgt_id r \<noteq> []))
    in (\<forall>M. Warn_undefined_entities M \<in> set (fst (validate_kg_data es rels cs)) \<longrightarrow> M = D) \<and>
       (complete \<and> D \<noteq> {} \<longrightarrow>
          Warn_undefined_entities D \<in> set (fst (validate_kg_data es rels cs))) \<and>
       (complete \<and> cs \<noteq> [] \<longrightarrow> snd (validate_kg_data es rels cs) = Inr ()) \<and>
       (\<forall>payload. snd (parse_kg_from_txt full_text) = Inr payload \<longrightarrow>
          kg_data.relationships payload = st_relationships (fst (parse_loop full_text))))"
proof -
  let ?D = "(src_id ` set rels \<union> tgt_id ` set rels) - entity_name ` set es"
  have a: "\<forall>M. Warn_undefined_entities M \<in> set (fst (validate_kg_data es rels cs)) \<longrightarrow> M = ?D"
    using validate_kg_data_warning by blast
  have b: "Warn_undefined_entities ?D \<in> set (fst (validate_kg_data es rels cs))"
    if "\<forall>e \<in> set es. entity_name e \<noteq> [] \<and> entity_type e \<noteq> []"
      and "\<forall>r \<in> set rels. src_id r \<noteq> [] \<and> tgt_id r \<noteq> []" and "?D \<noteq> {}"
    using validate_kg_data_complete [OF that(1,2), of cs] that(3) by auto
  have c: "snd (validate_kg_data es rels cs) = Inr ()"
    if "\<forall>e \<in> set es. entity_name e \<noteq> [] \<and> entity_type e \<noteq> []"
      and "\<forall>r \<in> set rels. src_id r \<noteq> [] \<and> tgt_id r \<noteq> []" and "cs \<noteq> []"
    using validate_kg_data_complete [OF that(1,2), of cs] that(3) by auto
  have d: "\<forall>payload. snd (parse_kg_from_txt full_text) = Inr payload \<longrightarrow>
          kg_data.relationships payload = st_relationships (fst (parse_loop full_text))"
    by (auto simp: parse_kg_from_txt_result split: sum.splits option.splits)
  from a b c d show ?thesis unfolding Let_def by blast
qed


theorem validator_missing_references_witness:
  "Warn_undefined_entities {''b''} \<in> set (fst (validate_kg_data
      [\<lparr>entity_name = ''a'', entity_type = ''t'', description = ''d'', source_id = ''chunk_1''\<rparr>]
      [\<lparr>src_id = ''a'', tgt_id = ''b'', description = ''d'', rel_keywords = ''k'',
        weight = Finite 1, source_id = ''chunk_1''\<rparr>]
      [\<lparr>content = ''c'', source_id = ''chunk_1'', source_chunk_index = 1\<rparr>])) \<and>
   snd (validate_kg_data
      [\<lparr>entity_name = ''a'', entity_type = ''t'', description = ''d'', source_id = ''chunk_1''\<rparr>]
      [\<lparr>src_id = ''a'', tgt_id = ''b'', description = ''d'', rel_keywords = ''k'',
        weight = Finite 1, source_id = ''chunk_1''\<rparr>]
      [\<lparr>content = ''c'', source_id = ''chunk_1'', source_chunk_index = 1\<rparr>]) = Inr ()"
proof -
  have d: "{''b'', ''a''} - {''a''} = {''b''}" by auto
  show ?thesis
    using validator_missing_references [of
      "[\<lparr>src_id = ''a'', tgt_id = ''b'', description = ''d'', rel_keywords = ''k'',
        weight = Finite 1, source_id = ''chunk_1''\<rparr>]"
      "[\<lparr>entity_name = ''a'', entity_type = ''t'', description = ''d'', source_id = ''chunk_1''\<rparr>]"
      "[\<lparr>content = ''c'', source_id = ''chunk_1'', source_chunk_index = 1\<rparr>]" "[]"]
    by (simp add: Let_def d)
qed

section \<open>Properties of the patterns\<close>

lemma lit_match_Some: "lit_match l s = Some s' \<longleftrightarrow> s = l @ s'"
  by (induction l s rule: lit_match.induct) auto

lemma lit_match_Some2: "Some s' = lit_match l s \<longleftrightarrow> s = l @ s'"
  using lit_match_Some [of l s s'] by auto

lemma star_greedy_sound:
  "(m, r) \<in> set (star_greedy c s) \<Longrightarrow> s = m @ r \<and> (\<forall>x \<in> set m. in_cls c x)"
  by (induction c s arbitrary: m r rule: star_greedy.induct) (auto split: if_splits)

lemma star_lazy_sound:
  "(m, r) \<in> set (star_lazy c s) \<Longrightarrow> s = m @ r \<and> (\<forall>x \<in> set m. in_cls c x)"
  by (induction c s arbitrary: m r rule: star_lazy.induct) (auto split: if_splits)

lemma rx_match_Seq_iff:
  "(g, m, s') \<in> set (rx_match (Seq a b) s) \<longleftrightarrow>
     (\<exists>g1 m1 s1 g2 m2. (g1, m1, s1) \<in> set (rx_match a s) \<and> (g2, m2, s') \<in> set (rx_match b s1) \<and>
        g = g1 @ g2 \<and> m = m1 @ m2)"
  by (auto simp: image_iff) force+

lemma rx_match_sound: "(g, m, s') \<in> set (rx_match r s) \<Longrightarrow> s = m @ s'"
proof (induction r arbitrary: g m s' s)
  case (Lit l)
  then show ?case by (auto simp: lit_match_Some2 split: option.splits)
next
  case (Star c)
  then show ?case by (auto dest: star_greedy_sound)
next
  case (Lazy c)
  then show ?case by (auto dest: star_lazy_sound)
next
  case (Plus c)
  then show ?case by (auto split: list.splits if_splits dest: star_greedy_sound)
next
  case (Grp r)
  then show ?case by auto
next
  case (Seq a b)
  from Seq.prems obtain g1 m1 s1 g2 m2 where
    "(g1, m1, s1) \<in> set (rx_match a s)" "(g2, m2, s') \<in> set (rx_match b s1)" "m = m1 @ m2"
    unfolding rx_match_Seq_iff by blast
  with Seq.IH show ?case by fastforce
next
  case (Alt a b)
  then show ?case by auto
next
  case (Ahead r)
  then show ?case by (auto split: list.splits)
next
  case Eos
  then show ?case by (auto split: if_splits)
next
  case Eol
  then show ?case by (auto split: list.splits if_splits)
qed

lemma rx_scan_None_iff:
  "rx_scan r i s = None \<longleftrightarrow> (\<forall>k \<le> length s. rx_match r (drop k s) = [])"
proof (induction s arbitrary: i)
  case Nil
  then show ?case by (auto split: list.splits)
next
  case (Cons x xs)
  have all: "(\<forall>k \<le> length (x # xs). rx_match r (drop k (x # xs)) = []) \<longleftrightarrow>
      rx_match r (x # xs) = [] \<and> (\<forall>k \<le> length xs. rx_match r (drop k xs) = [])"
  proof
    assume a: "\<forall>k \<le> length (x # xs). rx_match r (drop k (x # xs)) = []"
    from a [rule_format, of 0] have "rx_match r (x # xs) = []" by simp
    moreover have "rx_match r (drop k xs) = []" if "k \<le> length xs" for k
      using a [rule_format, of "Suc k"] that by simp
    ultimately show "rx_match r (x # xs) = [] \<and> (\<forall>k \<le> length xs. rx_match r (drop k xs) = [])"
      by blast
  next
    assume b: "rx_match r (x # xs) = [] \<and> (\<forall>k \<le> length xs. rx_match r (drop k xs) = [])"
    show "\<forall>k \<le> length (x # xs). rx_match r (drop k (x # xs)) = []"
    proof (intro allI impI)
      fix k assume "k \<le> length (x # xs)"
      with b show "rx_match r (drop k (x # xs)) = []" by (cases k) auto
    qed
  qed
  show ?case
  proof (cases "rx_match r (x # xs)")
    case Nil
    then show ?thesis using Cons.IH [of "Suc i"] all by simp
  next
    case (Cons w ws)
    then show ?thesis using all by (auto split: prod.splits)
  qed
qed

lemma rx_scan_Some:
  "rx_scan r i s = Some mt \<Longrightarrow>
     \<exists>k g m rest ws. k \<le> length s \<and> rx_match r (drop k s) = (g, m, rest) # ws \<and>
       mt = \<lparr>m_start = i + k, m_end = i + k + length m, m_groups = g\<rparr> \<and>
       (\<forall>j < k. rx_match r (drop j s) = [])"
proof (induction s arbitrary: i)
  case Nil
  then show ?case by (auto split: list.splits)
next
  case (Cons x xs)
  show ?case
  proof (cases "rx_match r (x # xs)")
    case Nil
    with Cons.prems have "rx_scan r (Suc i) xs = Some mt" by simp
    from Cons.IH [OF this] obtain k g m rest ws where
      k: "k \<le> length xs" "rx_match r (drop k xs) = (g, m, rest) # ws"
        "mt = \<lparr>m_start = Suc i + k, m_end = Suc i + k + length m, m_groups = g\<rparr>"
        "\<forall>j < k. rx_match r (drop j xs) = []"
      by blast
    have "\<forall>j < Suc k. rx_match r (drop j (x # xs)) = []"
    proof (intro allI impI)
      fix j assume "j < Suc k"
      with Nil k(4) show "rx_match r (drop j (x # xs)) = []" by (cases j) auto
    qed
    with k show ?thesis
      by (intro exI [of _ "Suc k"] exI [of _ g] exI [of _ m] exI [of _ rest] exI [of _ ws]) simp
  next
    case (Cons w ws)
    obtain g m rest where w: "w = (g, m, rest)" by (cases w)
    with Cons Cons.prems show ?thesis
      by (intro exI [of _ 0] exI [of _ g] exI [of _ m] exI [of _ rest] exI [of _ ws]) auto
  qed
qed

lemma rx_scan_bounds:
  assumes "rx_scan r i s = Some mt"
  shows "i \<le> m_start mt \<and> m_start mt \<le> m_end mt \<and> m_end mt \<le> i + length s"
proof -
  from rx_scan_Some [OF assms] obtain k g m rest ws where
    k: "k \<le> length s" "rx_match r (drop k s) = (g, m, rest) # ws"
      "mt = \<lparr>m_start = i + k, m_end = i + k + length m, m_groups = g\<rparr>"
    by blast
  from k(2) have "(g, m, rest) \<in> set (rx_match r (drop k s))" by simp
  from rx_match_sound [OF this] have "length (drop k s) = length m + length rest" by simp
  with k(1) have "k + length m \<le> length s" by simp
  with k(3) show ?thesis by simp
qed

lemma in_order_mono: "in_order lo hi ms \<Longrightarrow> lo' \<le> lo \<Longrightarrow> in_order lo' hi ms"
  by (cases ms) auto

lemma rx_finditer_unfold:
  assumes "rx_scan r i s = Some mt" and "j = max (m_end mt) (Suc (m_start mt))"
  shows "rx_finditer r i s =
    mt # (if length s < j - i then [] else rx_finditer r j (drop (j - i) s))"
  by (subst rx_finditer.simps) (simp add: assms Let_def)

lemma rx_finditer_None: "rx_scan r i s = None \<Longrightarrow> rx_finditer r i s = []"
  by (subst rx_finditer.simps) simp

lemma rx_finditer_in_order: "in_order i (i + length s) (rx_finditer r i s)"
proof (induction r i s rule: rx_finditer.induct)
  case (1 r i s)
  show ?case
  proof (cases "rx_scan r i s")
    case None
    then show ?thesis by (simp add: rx_finditer_None)
  next
    case (Some mt)
    define j where "j = max (m_end mt) (Suc (m_start mt))"
    note eq = rx_finditer_unfold [OF Some j_def]
    from rx_scan_bounds [OF Some] have b: "i \<le> m_start mt" "m_start mt \<le> m_end mt"
      "m_end mt \<le> i + length s" by auto
    have jb: "m_end mt \<le> j" "i < j" using b by (auto simp: j_def)
    show ?thesis
    proof (cases "length s < j - i")
      case True
      with eq have "rx_finditer r i s = [mt]" by simp
      with b show ?thesis by simp
    next
      case False
      have len: "j + length (drop (j - i) s) = i + length s" using False jb by auto
      from "1.IH" [OF Some j_def False]
      have "in_order j (j + length (drop (j - i) s)) (rx_finditer r j (drop (j - i) s))" .
      then have "in_order j (i + length s) (rx_finditer r j (drop (j - i) s))"
        unfolding len .
      from in_order_mono [OF this jb(1)]
      have "in_order (m_end mt) (i + length s) (rx_finditer r j (drop (j - i) s))" .
      moreover from eq False have "rx_finditer r i s = mt # rx_finditer r j (drop (j - i) s)"
        by simp
      ultimately show ?thesis using b by simp
    qed
  qed
qed

lemma rx_finditer_matches:
  "mt \<in> set (rx_finditer r i s) \<Longrightarrow>
     \<exists>m rest ws. rx_match r (drop (m_start mt - i) s) = (m_groups mt, m, rest) # ws \<and>
        m_end mt = m_start mt + length m \<and> i \<le> m_start mt \<and> m_start mt - i \<le> length s"
proof (induction r i s rule: rx_finditer.induct)
  case (1 r i s)
  show ?case
  proof (cases "rx_scan r i s")
    case None
    with "1.prems" show ?thesis by (simp add: rx_finditer_None)
  next
    case (Some mt0)
    define j where "j = max (m_end mt0) (Suc (m_start mt0))"
    note eq = rx_finditer_unfold [OF Some j_def]
    from rx_scan_bounds [OF Some] have b: "i \<le> m_start mt0" "m_start mt0 \<le> m_end mt0"
      "m_end mt0 \<le> i + length s" by auto
    have jb: "m_end mt0 \<le> j" "i < j" using b by (auto simp: j_def)
    from "1.prems" eq consider (head) "mt = mt0"
      | (tail) "\<not> length s < j - i" "mt \<in> set (rx_finditer r j (drop (j - i) s))"
      by (auto split: if_splits)
    then show ?thesis
    proof cases
      case head
      from rx_scan_Some [OF Some] show ?thesis unfolding head by auto
    next
      case tail
      from "1.IH" [OF Some j_def tail] obtain m rest ws where
        t: "rx_match r (drop (m_start mt - j) (drop (j - i) s)) = (m_groups mt, m, rest) # ws"
          "m_end mt = m_start mt + length m" "j \<le> m_start mt"
          "m_start mt - j \<le> length (drop (j - i) s)"
        by blast
      from jb t(3) have "m_start mt - j + (j - i) = m_start mt - i" by simp
      with t(1) have "rx_match r (drop (m_start mt - i) s) = (m_groups mt, m, rest) # ws"
        by (simp add: add.commute)
      moreover from jb t(3,4) tail(1) have "i \<le> m_start mt" "m_start mt - i \<le> length s" by auto
      ultimately show ?thesis using t(2) by blast
    qed
  qed
qed

lemma in_order_nth:
  "in_order lo hi ms \<Longrightarrow> k < length ms \<Longrightarrow>
     lo \<le> m_start (ms ! k) \<and> m_start (ms ! k) \<le> m_end (ms ! k) \<and> m_end (ms ! k) \<le> hi \<and>
     (Suc k < length ms \<longrightarrow> m_end (ms ! k) \<le> m_start (ms ! Suc k))"
proof (induction ms arbitrary: lo k)
  case Nil
  then show ?case by simp
next
  case (Cons mt ms)
  show ?case
  proof (cases k)
    case 0
    with Cons.prems show ?thesis by (cases ms) auto
  next
    case (Suc k')
    with Cons.prems have "in_order (m_end mt) hi ms" "k' < length ms" by auto
    from Cons.IH [OF this] Cons.prems Suc show ?thesis by auto
  qed
qed

lemma bit_length_le: "n < 2 ^ k \<Longrightarrow> bit_length n \<le> k"
proof (induction k arbitrary: n)
  case 0
  then show ?case by (simp add: bit_length.simps)
next
  case (Suc k)
  then have "n div 2 < 2 ^ k" by auto
  from Suc.IH [OF this] show ?case by (subst bit_length.simps) simp
qed

lemma bit_length_pow2: "bit_length (2 ^ k) = Suc k"
  by (induction k) (simp_all add: bit_length.simps)

lemma round_binary64_exact:
  assumes "n \<le> 2 ^ 53"
  shows "round_binary64 n = Finite n"
proof (cases "n < 2 ^ 53")
  case True
  from bit_length_le [OF True] have e: "bit_length n - 53 = 0" by simp
  from bit_length_le [OF True] have "\<not> 1024 < bit_length n" by simp
  then show ?thesis by (simp add: round_binary64_def e Let_def)
next
  case False
  with assms have n: "n = 9007199254740992" by simp
  show ?thesis
    unfolding n by (simp add: round_binary64_def bit_length.simps Let_def)
qed

lemma float_of_digits_example:
  "float_of_digits ''9007199254740993'' = Finite 9007199254740992"
  by (simp add: float_of_digits_def digits_value_def digit_value_def round_binary64_def
        bit_length.simps Let_def)

lemma digits_value_example: "digits_value ''9007199254740993'' = 9007199254740993"
  by (simp add: digits_value_def digit_value_def)

lemma findall_example:
  "re_findall relation_pattern ''(\"relationship\"|a|b|c|9007199254740993|k)'' =
     [[''a'', ''b'', ''c'', ''9007199254740993'', ''k'']]"
  by code_simp

lemma rx_match_Lit_groups: "(g, m, s') \<in> set (rx_match (Lit l) s) \<Longrightarrow> g = [] \<and> m = l"
  by (auto split: option.splits)

lemma rx_match_Star_groups: "(g, m, s') \<in> set (rx_match (Star c) s) \<Longrightarrow> g = []"
  by auto

lemma rx_match_Grp_Lazy:
  "(g, m, s') \<in> set (rx_match (Grp (Lazy c)) s) \<Longrightarrow> g = [m] \<and> (\<forall>x \<in> set m. in_cls c x)"
  by (auto dest: star_lazy_sound)

lemma rx_match_Grp_Plus:
  assumes "(g, m, s') \<in> set (rx_match (Grp (Plus c)) s)"
  shows "g = [m] \<and> m \<noteq> [] \<and> (\<forall>x \<in> set m. in_cls c x)"
proof (cases s)
  case Nil
  with assms show ?thesis by simp
next
  case (Cons x xs)
  with assms obtain m' where "in_cls c x" "(m', s') \<in> set (star_greedy c xs)" "m = x # m'"
    "g = [m]"
    by (auto split: if_splits)
  with star_greedy_sound [of m' s' c xs] show ?thesis by auto
qed

lemma rx_match_groupless:
  "groupless r \<Longrightarrow> (g, m, s') \<in> set (rx_match r s) \<Longrightarrow> g = []"
proof (induction r arbitrary: g m s' s)
  case (Seq a b)
  from Seq.prems(2) obtain g1 m1 s1 g2 m2 where
    "(g1, m1, s1) \<in> set (rx_match a s)" "(g2, m2, s') \<in> set (rx_match b s1)" "g = g1 @ g2"
    unfolding rx_match_Seq_iff by blast
  with Seq.IH Seq.prems(1) show ?case by fastforce
next
  case (Ahead r)
  show ?case
  proof (cases "rx_match r s")
    case Nil
    with Ahead.prems(2) show ?thesis by simp
  next
    case (Cons w ws)
    obtain g0 m0 s0 where w: "w = (g0, m0, s0)" by (cases w)
    with Cons Ahead.prems(2) have "g = g0" by simp
    moreover from Cons w have "(g0, m0, s0) \<in> set (rx_match r s)" by simp
    ultimately show ?thesis using Ahead.IH [of g0 m0 s0 s] Ahead.prems(1) by simp
  qed
next
  case (Lit l)
  then show ?case by (auto split: option.splits)
next
  case (Plus c)
  then show ?case by (auto split: list.splits if_splits)
next
  case Eos
  then show ?case by (auto split: if_splits)
next
  case Eol
  then show ?case by (auto split: list.splits if_splits)
qed auto

lemma rx_match_min_pipes:
  "(g, m, s') \<in> set (rx_match r s) \<Longrightarrow> min_pipes r \<le> length (filter (\<lambda>c. c = CHR ''|'') m)"
proof (induction r arbitrary: g m s' s)
  case (Seq a b)
  from Seq.prems obtain g1 m1 s1 g2 m2 where
    "(g1, m1, s1) \<in> set (rx_match a s)" "(g2, m2, s') \<in> set (rx_match b s1)" "m = m1 @ m2"
    unfolding rx_match_Seq_iff by blast
  with Seq.IH show ?case by fastforce
next
  case (Alt a b)
  then show ?case by fastforce
next
  case (Lit l)
  then show ?case by (auto split: option.splits)
next
  case (Grp r)
  then show ?case by auto
qed auto

lemma findall_Nil_if_few_pipes:
  assumes "length (filter (\<lambda>c. c = CHR ''|'') s) < min_pipes r"
  shows "re_findall r s = []"
proof -
  have "rx_match r (drop k s) = []" for k
  proof (rule ccontr)
    assume "rx_match r (drop k s) \<noteq> []"
    then obtain g m s' where w: "(g, m, s') \<in> set (rx_match r (drop k s))"
      by (cases "rx_match r (drop k s)") auto
    from rx_match_sound [OF w] have d: "drop k s = m @ s'" .
    have "length (filter (\<lambda>c. c = CHR ''|'') m) \<le> length (filter (\<lambda>c. c = CHR ''|'') (drop k s))"
      unfolding d by simp
    also have "\<dots> \<le> length (filter (\<lambda>c. c = CHR ''|'') (take k s @ drop k s))"
      unfolding filter_append by simp
    finally have "length (filter (\<lambda>c. c = CHR ''|'') m) \<le> length (filter (\<lambda>c. c = CHR ''|'') s)"
      by simp
    with rx_match_min_pipes [OF w] assms show False by simp
  qed
  then have "rx_scan r 0 s = None" by (simp add: rx_scan_None_iff)
  then show ?thesis by (simp add: re_findall_def re_finditer_def rx_finditer_None)
qed

lemma min_pipes_patterns: "min_pipes entity_pattern = 3" "min_pipes relation_pattern = 5"
  by (simp_all add: entity_pattern_def relation_pattern_def)

lemma relation_pattern_groups:
  assumes "(g, m, s') \<in> set (rx_match relation_pattern s)"
  shows "\<exists>a b c w k. g = [a, b, c, w, k] \<and> w \<noteq> [] \<and> (\<forall>x \<in> set w. py_isdigit x) \<and>
           CHR ''|'' \<notin> set a \<and> CHR ''|'' \<notin> set b"
proof -
  note [simp del] = rx_match.simps
  from assms show ?thesis
    unfolding relation_pattern_def seqs.simps rx_match_Seq_iff
    apply (elim exE conjE)
    apply (drule rx_match_Lit_groups rx_match_Star_groups rx_match_Grp_Lazy rx_match_Grp_Plus)+
    apply auto
    done
qed

lemma entity_pattern_groups:
  assumes "(g, m, s') \<in> set (rx_match entity_pattern s)"
  shows "\<exists>a b c. g = [a, b, c] \<and> CHR ''|'' \<notin> set a \<and> CHR ''|'' \<notin> set b \<and>
           CHR 0x0A \<notin> set c"
proof -
  note [simp del] = rx_match.simps
  have ahead: "g = []" if "(g, m, s') \<in> set (rx_match (Ahead (Alt (Seq (Star Space) Eol)
      (Seq (Star Space) (Lit ''('')))) s)" for g m s' s
    using rx_match_groupless [OF _ that] by simp
  from assms show ?thesis
    unfolding entity_pattern_def seqs.simps rx_match_Seq_iff
    apply (elim exE conjE)
    apply (drule rx_match_Lit_groups rx_match_Star_groups rx_match_Grp_Lazy ahead)+
    apply auto
    done
qed

lemma re_findall_groups:
  assumes "g \<in> set (re_findall r s)"
  shows "\<exists>k m s' ws. k \<le> length s \<and> rx_match r (drop k s) = (g, m, s') # ws"
proof -
  from assms obtain mt where mt: "mt \<in> set (rx_finditer r 0 s)" "g = m_groups mt"
    by (auto simp: re_findall_def re_finditer_def)
  from rx_finditer_matches [OF mt(1)] mt(2) show ?thesis by auto
qed

lemma relation_findall_groups:
  assumes "g \<in> set (re_findall relation_pattern s)"
  shows "length g = 5 \<and> g ! 3 \<noteq> [] \<and> (\<forall>c \<in> set (g ! 3). py_isdigit c)"
proof -
  from re_findall_groups [OF assms] obtain k m s' ws where
    "rx_match relation_pattern (drop k s) = (g, m, s') # ws" by blast
  then have "(g, m, s') \<in> set (rx_match relation_pattern (drop k s))" by simp
  from relation_pattern_groups [OF this] show ?thesis by auto
qed

text \<open>
  Claim C8, as amended. The weight field of every relationship record that the pattern matches is
  a non-empty string of digits, and the weight extracted is the binary64 number nearest to the
  integer written; it is that integer exactly whenever the integer is at most \<open>2 ^ 53\<close>.
\<close>

theorem relationship_weight_rounded:
  "extract_relationships sid chunk_text =
     map (relationship_of sid) (re_findall relation_pattern chunk_text) \<and>
   (\<forall>g \<in> set (re_findall relation_pattern chunk_text).
      length g = 5 \<and> g ! 3 \<noteq> [] \<and> (\<forall>c \<in> set (g ! 3). py_isdigit c) \<and>
      weight (relationship_of sid g) = round_binary64 (digits_value (g ! 3)) \<and>
      (digits_value (g ! 3) \<le> 2 ^ 53 \<longrightarrow>
         weight (relationship_of sid g) = Finite (digits_value (g ! 3))))"
proof -
  have w: "weight (relationship_of sid g) = round_binary64 (digits_value (g ! 3))" for g
    by (simp add: relationship_of_def float_of_digits_def)
  show ?thesis
    using relation_findall_groups [of _ chunk_text] round_binary64_exact
    by (auto simp: extract_relationships_def w)
qed

lemma findall_small_example:
  "re_findall relation_pattern ''(\"relationship\"|a|b|c|3|k)'' = [[''a'', ''b'', ''c'', ''3'', ''k'']]"
  by code_simp

theorem relationship_weight_rounded_witness:
  "map weight (extract_relationships ''chunk_1'' ''(\"relationship\"|a|b|c|3|k)'') = [Finite 3]"
proof -
  have d: "digits_value ''3'' = 3" by (simp add: digits_value_def digit_value_def)
  note t = relationship_weight_rounded [of "''chunk_1''" "''(\"relationship\"|a|b|c|3|k)''",
      unfolded findall_small_example]
  from t have e: "extract_relationships ''chunk_1'' ''(\"relationship\"|a|b|c|3|k)'' =
      [relationship_of ''chunk_1'' [''a'', ''b'', ''c'', ''3'', ''k'']]" by simp
  from t have "weight (relationship_of ''chunk_1'' [''a'', ''b'', ''c'', ''3'', ''k'']) =
      round_binary64 (digits_value ''3'')" by simp
  also have "\<dots> = Finite 3"
    by (simp add: d round_binary64_def bit_length.simps Let_def)
  finally show ?thesis using e by simp
qed

theorem relationship_weight_counterexample:
  "map weight (extract_relationships ''chunk_1'' ''(\"relationship\"|a|b|c|9007199254740993|k)'') =
     [Finite 9007199254740992] \<and>
   Finite 9007199254740992 \<noteq> Finite (digits_value ''9007199254740993'')"
  by (simp add: extract_relationships_def findall_example relationship_of_def
        float_of_digits_example digits_value_example)

section \<open>Properties of a segment and a text with an overlong chunk id\<close>

lemma rx_match_Seq_Nil_iff:
  "rx_match (Seq a b) s = [] \<longleftrightarrow> (\<forall>(g, m, s1) \<in> set (rx_match a s). rx_match b s1 = [])"
  by (auto simp: concat_eq_Nil_conv)

lemma star_greedy_self: "([], s) \<in> set (star_greedy c s)"
  by (cases s) auto

lemma star_lazy_all: "\<forall>x \<in> set m. in_cls c x \<Longrightarrow> (m, s) \<in> set (star_lazy c (m @ s))"
proof (induction m)
  case Nil
  then show ?case by (cases s) auto
next
  case (Cons x m)
  then show ?case by (auto simp: image_iff intro!: bexI [of _ "(m, s)"])
qed

lemma rx_match_Star_iff:
  "(g, m, s') \<in> set (rx_match (Star c) s) \<longleftrightarrow> g = [] \<and> (m, s') \<in> set (star_greedy c s)"
  by auto

lemma rx_match_Lazy_iff:
  "(g, m, s') \<in> set (rx_match (Lazy c) s) \<longleftrightarrow> g = [] \<and> (m, s') \<in> set (star_lazy c s)"
  by auto

lemma rx_match_Grp_iff:
  "(g, m, s') \<in> set (rx_match (Grp r) s) \<longleftrightarrow>
     (\<exists>g0. g = g0 @ [m] \<and> (g0, m, s') \<in> set (rx_match r s))"
  by force

lemma original_text_tail_matches:
  "rx_match (seqs [Star Space, Grp (Lazy AnyChar),
      Ahead (Alt (Lit ''total tokens:'') (Alt (Lit ''deepseek-v3 output:'') Eos))]) v \<noteq> []"
proof -
  have a: "rx_match (Ahead (Alt (Lit ''total tokens:'') (Alt (Lit ''deepseek-v3 output:'') Eos))) []
      \<noteq> []"
    by simp
  have "(v, []) \<in> set (star_lazy AnyChar (v @ []))" by (rule star_lazy_all) simp
  then have "([v], v, []) \<in> set (rx_match (Grp (Lazy AnyChar)) v)"
    unfolding rx_match_Grp_iff rx_match_Lazy_iff by simp
  with a have b: "rx_match (Seq (Grp (Lazy AnyChar))
      (Ahead (Alt (Lit ''total tokens:'') (Alt (Lit ''deepseek-v3 output:'') Eos)))) v \<noteq> []"
    unfolding rx_match_Seq_Nil_iff by blast
  have "([], [], v) \<in> set (rx_match (Star Space) v)"
    using star_greedy_self [of v Space] unfolding rx_match_Star_iff by simp
  with b show ?thesis
    unfolding seqs.simps rx_match_Seq_Nil_iff by blast
qed

lemma original_text_pattern_matches:
  "rx_match original_text_pattern s \<noteq> [] \<longleftrightarrow> (\<exists>v. s = ''original text:'' @ v)"
proof -
  let ?tail = "seqs [Star Space, Grp (Lazy AnyChar),
      Ahead (Alt (Lit ''total tokens:'') (Alt (Lit ''deepseek-v3 output:'') Eos))]"
  have p: "original_text_pattern = Seq (Lit ''original text:'') ?tail"
    by (simp add: original_text_pattern_def)
  show ?thesis
  proof (cases "lit_match ''original text:'' s")
    case None
    then have "\<not> (\<exists>v. s = ''original text:'' @ v)"
      using lit_match_Some [of "''original text:''" s] by auto
    moreover from None have "rx_match original_text_pattern s = []"
      unfolding p by simp
    ultimately show ?thesis by simp
  next
    case (Some v)
    then have s: "s = ''original text:'' @ v" by (simp add: lit_match_Some)
    from Some have "([], ''original text:'', v) \<in> set (rx_match (Lit ''original text:'') s)"
      by simp
    with original_text_tail_matches [of v] have "rx_match original_text_pattern s \<noteq> []"
      unfolding p rx_match_Seq_Nil_iff by blast
    with s show ?thesis by blast
  qed
qed

lemma re_search_original_text_None:
  "re_search original_text_pattern s = None \<longleftrightarrow> \<not> (\<exists>u v. s = u @ ''original text:'' @ v)"
proof -
  have "(\<exists>u v. s = u @ ''original text:'' @ v) \<longleftrightarrow>
      (\<exists>k \<le> length s. \<exists>v. drop k s = ''original text:'' @ v)"
  proof
    assume "\<exists>u v. s = u @ ''original text:'' @ v"
    then obtain u v where "s = u @ ''original text:'' @ v" by blast
    then have "length u \<le> length s" "drop (length u) s = ''original text:'' @ v" by simp_all
    then show "\<exists>k \<le> length s. \<exists>v. drop k s = ''original text:'' @ v" by blast
  next
    assume "\<exists>k \<le> length s. \<exists>v. drop k s = ''original text:'' @ v"
    then obtain k v where "drop k s = ''original text:'' @ v" by blast
    then have "s = take k s @ ''original text:'' @ v"
      by (metis append_take_drop_id)
    then show "\<exists>u v. s = u @ ''original text:'' @ v" by blast
  qed
  then show ?thesis
    unfolding re_search_def rx_scan_None_iff
    using original_text_pattern_matches by blast
qed

lemma process_chunk_no_original_text:
  assumes "re_search original_text_pattern chunk_text = None"
  shows "process_chunk chunk_id chunk_text st =
     (st\<lparr>st_log := st_log st @ [Warn_no_original_text chunk_id],
         st_entities := st_entities st @ extract_entities (''chunk_'' @ chunk_id) chunk_text,
         st_relationships :=
           st_relationships st @ extract_relationships (''chunk_'' @ chunk_id) chunk_text\<rparr>, None)"
  using assms by (simp add: process_chunk_def Let_def)

lemma parse_example:
  "snd (parse_kg_from_txt
     ''No.: 1 of all the chunksoriginal text: aNo.: 2 of all the chunks(\"entity\"|x|y|z)(\"relationship\"|x|y|d|1|k)'') =
   Inr \<lparr>kg_data.entities =
          [\<lparr>entity_name = ''x'', entity_type = ''y'', description = ''z'', source_id = ''chunk_2''\<rparr>],
        kg_data.relationships =
          [\<lparr>src_id = ''x'', tgt_id = ''y'', description = ''d'', rel_keywords = ''k'',
            weight = Finite 1, source_id = ''chunk_2''\<rparr>],
        chunks = [\<lparr>content = ''a'', source_id = ''chunk_1'', source_chunk_index = 1\<rparr>]\<rparr>"
  by code_simp


text \<open>
  Claim C9. The search for the original text fails exactly on a segment in which the label
  \<open>original text:\<close> does not occur. On such a segment, when its stripped text is not empty,
  the loop adds no chunk record and logs a warning, and still adds the entities and the
  relationships that the two patterns find in it. So a payload can hold an entity and a
  relationship whose \<open>source_id\<close> is the \<open>source_id\<close> of no chunk, as long as another
  segment gives a chunk.
\<close>

theorem segment_without_original_text:
  "(re_search original_text_pattern t = None \<longleftrightarrow> \<not> (\<exists>u v. t = u @ ''original text:'' @ v)) \<and>
   (chunk_text_at full_text matches idx \<noteq> [] \<and>
    re_search original_text_pattern (chunk_text_at full_text matches idx) = None \<longrightarrow>
      (let st' = fst (parse_step full_text matches (idx, mt) st);
           chunk_id = m_groups mt ! 0;
           chunk_text = chunk_text_at full_text matches idx
       in snd (parse_step full_text matches (idx, mt) st) = None \<and>
          st_chunks st' = st_chunks st \<and>
          st_entities st' = st_entities st @ extract_entities (''chunk_'' @ chunk_id) chunk_text \<and>
          st_relationships st' =
            st_relationships st @ extract_relationships (''chunk_'' @ chunk_id) chunk_text \<and>
          st_log st' = st_log st @ [Warn_no_original_text chunk_id])) \<and>
   (\<exists>txt payload. snd (parse_kg_from_txt txt) = Inr payload \<and> chunks payload \<noteq> [] \<and>
      (\<exists>e \<in> set (kg_data.entities payload).
         entity.source_id e \<notin> chunk.source_id ` set (chunks payload)) \<and>
      (\<exists>r \<in> set (kg_data.relationships payload).
         relationship.source_id r \<notin> chunk.source_id ` set (chunks payload)))"
proof (intro conjI)
  show "re_search original_text_pattern t = None \<longleftrightarrow> \<not> (\<exists>u v. t = u @ ''original text:'' @ v)"
    by (rule re_search_original_text_None)
next
  show "chunk_text_at full_text matches idx \<noteq> [] \<and>
    re_search original_text_pattern (chunk_text_at full_text matches idx) = None \<longrightarrow>
      (let st' = fst (parse_step full_text matches (idx, mt) st);
           chunk_id = m_groups mt ! 0;
           chunk_text = chunk_text_at full_text matches idx
       in snd (parse_step full_text matches (idx, mt) st) = None \<and>
          st_chunks st' = st_chunks st \<and>
          st_entities st' = st_entities st @ extract_entities (''chunk_'' @ chunk_id) chunk_text \<and>
          st_relationships st' =
            st_relationships st @ extract_relationships (''chunk_'' @ chunk_id) chunk_text \<and>
          st_log st' = st_log st @ [Warn_no_original_text chunk_id])"
    by (simp add: parse_step_def Let_def process_chunk_no_original_text)
next
  show "\<exists>txt payload. snd (parse_kg_from_txt txt) = Inr payload \<and> chunks payload \<noteq> [] \<and>
      (\<exists>e \<in> set (kg_data.entities payload).
         entity.source_id e \<notin> chunk.source_id ` set (chunks payload)) \<and>
      (\<exists>r \<in> set (kg_data.relationships payload).
         relationship.source_id r \<notin> chunk.source_id ` set (chunks payload))"
    by (rule exI, rule exI, rule conjI, rule parse_example) simp
qed

lemma segment_example:
  "chunk_text_at ''No.: 7 of all the chunks(\"entity\"|x|y|z)''
     [\<lparr>m_start = 0, m_end = 24, m_groups = [''7'']\<rparr>] 0 = ''(\"entity\"|x|y|z)''"
  "re_search original_text_pattern ''(\"entity\"|x|y|z)'' = None"
  "extract_entities ''chunk_7'' ''(\"entity\"|x|y|z)'' =
     [\<lparr>entity_name = ''x'', entity_type = ''y'', description = ''z'', source_id = ''chunk_7''\<rparr>]"
  by code_simp+

theorem segment_without_original_text_witness:
  "st_chunks (fst (parse_step ''No.: 7 of all the chunks(\"entity\"|x|y|z)''
      [\<lparr>m_start = 0, m_end = 24, m_groups = [''7'']\<rparr>]
      (0, \<lparr>m_start = 0, m_end = 24, m_groups = [''7'']\<rparr>)
      \<lparr>st_entities = [], st_relationships = [], st_chunks = [], st_log = []\<rparr>)) = [] \<and>
   st_entities (fst (parse_step ''No.: 7 of all the chunks(\"entity\"|x|y|z)''
      [\<lparr>m_start = 0, m_end = 24, m_groups = [''7'']\<rparr>]
      (0, \<lparr>m_start = 0, m_end = 24, m_groups = [''7'']\<rparr>)
      \<lparr>st_entities = [], st_relationships = [], st_chunks = [], st_log = []\<rparr>)) =
     [\<lparr>entity_name = ''x'', entity_type = ''y'', description = ''z'', source_id = ''chunk_7''\<rparr>]"
  using segment_without_original_text [of "[]" "''No.: 7 of all the chunks(\"entity\"|x|y|z)''"
      "[\<lparr>m_start = 0, m_end = 24, m_groups = [''7'']\<rparr>]" 0
      "\<lparr>m_start = 0, m_end = 24, m_groups = [''7'']\<rparr>"
      "\<lparr>st_entities = [], st_relationships = [], st_chunks = [], st_log = []\<rparr>"]
  unfolding segment_example Let_def
  by (simp add: segment_example)

lemma parse_loop_characterised:
  fixes full_text
  defines "pre \<equiv> takeWhile (\<lambda>s. \<not> overlong s) (segments full_text)"
  defines "kept \<equiv> filter (\<lambda>(cid, t). t \<noteq> []) pre"
  shows "st_entities (fst (parse_loop full_text)) =
       concat (map (\<lambda>(cid, t). extract_entities (''chunk_'' @ cid) t) kept)"
    and "st_relationships (fst (parse_loop full_text)) =
       concat (map (\<lambda>(cid, t). extract_relationships (''chunk_'' @ cid) t) kept)"
    and "st_chunks (fst (parse_loop full_text)) =
       concat (map (\<lambda>(cid, t). chunk_records cid t) kept)"
    and "length (filter processed_msg (st_log (fst (parse_loop full_text)))) = length kept"
    and "filter skipped_msg (st_log (fst (parse_loop full_text))) =
       map (\<lambda>(cid, t). Warn_chunk_empty cid) (filter (\<lambda>(cid, t). t = []) pre)"
  unfolding parse_loop_def Let_def pre_def kept_def segments_enumerate
  using parse_chunks_characterised [of full_text "re_finditer chunk_pattern full_text"
      "enumerate 0 (re_finditer chunk_pattern full_text)"
      "\<lparr>st_entities = [], st_relationships = [], st_chunks = [],
        st_log = [Info_found_chunks (length (re_finditer chunk_pattern full_text))]\<rparr>"]
  by simp_all

lemma star_greedy_run:
  assumes "\<forall>c \<in> set ds. in_cls k c" and "rest = [] \<or> \<not> in_cls k (hd rest)"
  shows "\<exists>ws. star_greedy k (ds @ rest) = (ds, rest) # ws"
  using assms
proof (induction ds)
  case Nil
  then show ?case by (cases rest) simp_all
next
  case (Cons x ds)
  then obtain ws where "star_greedy k (ds @ rest) = (ds, rest) # ws" by auto
  with Cons.prems show ?case by simp
qed

lemma lit_match_append: "lit_match l (l @ t) = Some t"
  by (simp add: lit_match_Some)

lemma rx_match_marker:
  assumes "ds \<noteq> []" and "\<forall>c \<in> set ds. in_cls k c" and "l2 \<noteq> []" and "\<not> in_cls k (hd l2)"
  shows "\<exists>ws. rx_match (Seq (Lit l1) (Seq (Grp (Plus k)) (Lit l2))) (l1 @ ds @ l2 @ rest) =
     ([ds], l1 @ ds @ l2, rest) # ws"
proof -
  from assms(1) obtain x ds' where ds: "ds = x # ds'" by (cases ds) auto
  from assms(3,4) have "\<not> in_cls k (hd (l2 @ rest))" by simp
  with assms(2) obtain ws where
    g: "star_greedy k (ds' @ l2 @ rest) = (ds', l2 @ rest) # ws"
    using star_greedy_run [of ds' k "l2 @ rest"] by (auto simp: ds)
  from assms(2) have x: "in_cls k x" by (simp add: ds)
  have p: "rx_match (Plus k) (ds @ l2 @ rest) =
      ([], ds, l2 @ rest) # map (\<lambda>(m, r). ([], x # m, r)) ws"
    by (simp add: ds x g)
  have q: "rx_match (Seq (Grp (Plus k)) (Lit l2)) (ds @ l2 @ rest) =
      ([ds], ds @ l2, rest) #
      concat (map (\<lambda>(g1, m1, s1). map (\<lambda>(g2, m2, s2). (g1 @ g2, m1 @ m2, s2))
          (rx_match (Lit l2) s1))
        (map (\<lambda>(g, m, s'). (g @ [m], m, s')) (map (\<lambda>(m, r). ([], x # m, r)) ws)))"
    unfolding rx_match.simps(6) rx_match.simps(5) p
    by (simp add: lit_match_append)
  have o: "rx_match (Seq (Lit l1) b) (l1 @ t) =
      map (\<lambda>(g2, m2, s2). (g2, l1 @ m2, s2)) (rx_match b t)" for b t
    by (simp add: lit_match_append)
  show ?thesis
    unfolding o q by simp
qed

lemma chunk_marker_match:
  assumes "ds \<noteq> []" and "\<forall>c \<in> set ds. py_isdigit c"
  shows "\<exists>ws. rx_match chunk_pattern (''No.: '' @ ds @ '' of all the chunks'' @ rest) =
     ([ds], ''No.: '' @ ds @ '' of all the chunks'', rest) # ws"
proof -
  have "\<not> in_cls Digit (hd '' of all the chunks'')" by (simp add: py_isdigit_def)
  from rx_match_marker [of ds Digit "'' of all the chunks''" "''No.: ''" rest, OF assms(1) _ _ this]
    assms(2)
  show ?thesis
    unfolding chunk_pattern_def seqs.simps by simp
qed

lemma rx_scan_hit:
  "rx_match r s = (g, m, s') # ws \<Longrightarrow>
     rx_scan r i s = Some \<lparr>m_start = i, m_end = i + length m, m_groups = g\<rparr>"
  by (cases s) simp_all

lemma chunk_pattern_first_char:
  "CHR ''N'' \<noteq> c \<Longrightarrow> rx_match chunk_pattern (c # t) = []"
  "rx_match chunk_pattern [] = []"
  by (simp_all add: chunk_pattern_def)

lemma rx_scan_chunk_skip:
  "CHR ''N'' \<notin> set pre \<Longrightarrow>
     rx_scan chunk_pattern i (pre @ s) = rx_scan chunk_pattern (i + length pre) s"
  by (induction pre arbitrary: i) (simp_all add: chunk_pattern_first_char)

lemma rx_scan_chunk_none:
  "CHR ''N'' \<notin> set s \<Longrightarrow> rx_scan chunk_pattern i s = None"
  by (induction s arbitrary: i) (simp_all add: chunk_pattern_first_char)

lemma rx_finditer_marker:
  assumes "ds \<noteq> []" and "\<forall>c \<in> set ds. py_isdigit c" and "CHR ''N'' \<notin> set pre"
  shows "rx_finditer chunk_pattern i (pre @ ''No.: '' @ ds @ '' of all the chunks'' @ rest) =
     \<lparr>m_start = i + length pre, m_end = i + length pre + 23 + length ds, m_groups = [ds]\<rparr> #
     rx_finditer chunk_pattern (i + length pre + 23 + length ds) rest"
proof -
  define marker where "marker = ''No.: '' @ ds @ '' of all the chunks''"
  have lm: "length marker = 23 + length ds" by (simp add: marker_def)
  define mt where
    "mt = \<lparr>m_start = i + length pre, m_end = i + length pre + 23 + length ds, m_groups = [ds]\<rparr>"
  from chunk_marker_match [OF assms(1,2), of rest] obtain ws where
    "rx_match chunk_pattern (marker @ rest) = ([ds], marker, rest) # ws"
    by (auto simp: marker_def)
  from rx_scan_hit [OF this, of "i + length pre"]
  have "rx_scan chunk_pattern (i + length pre) (marker @ rest) = Some mt"
    by (simp add: mt_def lm)
  with assms(3) have scan: "rx_scan chunk_pattern i (pre @ marker @ rest) = Some mt"
    by (simp add: rx_scan_chunk_skip)
  define j where "j = i + length pre + 23 + length ds"
  have j: "j = max (m_end mt) (Suc (m_start mt))" by (simp add: j_def mt_def)
  have d: "drop (j - i) (pre @ marker @ rest) = rest" by (simp add: j_def lm)
  have n: "\<not> length (pre @ marker @ rest) < j - i" by (simp add: j_def lm)
  have "rx_finditer chunk_pattern i (pre @ marker @ rest) = mt # rx_finditer chunk_pattern j rest"
    using rx_finditer_unfold [OF scan j] n d by simp
  then show ?thesis by (simp add: marker_def mt_def j_def)
qed

lemma long_id_digits: "long_id \<noteq> []" "\<forall>c \<in> set long_id. py_isdigit c" "length long_id = 4301"
  by (simp_all add: long_id_def py_isdigit_def)

lemma long_id_text_finditer:
  "re_finditer chunk_pattern long_id_text =
     [\<lparr>m_start = 0, m_end = 24, m_groups = [''1'']\<rparr>,
      \<lparr>m_start = 40, m_end = 4364, m_groups = [long_id]\<rparr>]"
proof -
  have a: "rx_finditer chunk_pattern 0
      ([] @ ''No.: '' @ ''1'' @ '' of all the chunks'' @
        (''original text: a'' @ ''No.: '' @ long_id @ '' of all the chunks'' @ ''original text: b'')) =
     \<lparr>m_start = 0, m_end = 24, m_groups = [''1'']\<rparr> #
     rx_finditer chunk_pattern 24
       (''original text: a'' @ ''No.: '' @ long_id @ '' of all the chunks'' @ ''original text: b'')"
    using rx_finditer_marker [of "''1''" "[]" 0] by (simp add: py_isdigit_def)
  have b: "rx_finditer chunk_pattern 24
       (''original text: a'' @ ''No.: '' @ long_id @ '' of all the chunks'' @ ''original text: b'') =
     \<lparr>m_start = 40, m_end = 4364, m_groups = [long_id]\<rparr> #
     rx_finditer chunk_pattern 4364 ''original text: b''"
    using rx_finditer_marker [OF long_id_digits(1,2), of "''original text: a''" 24 "''original text: b''"]
    by (simp add: long_id_digits(3))
  have c: "rx_finditer chunk_pattern 4364 ''original text: b'' = []"
    by (rule rx_finditer_None, rule rx_scan_chunk_none) simp
  have t: "long_id_text = [] @ ''No.: '' @ ''1'' @ '' of all the chunks'' @
        (''original text: a'' @ ''No.: '' @ long_id @ '' of all the chunks'' @ ''original text: b'')"
    by (simp add: long_id_text_def)
  show ?thesis
    unfolding re_finditer_def t a b c ..
qed

lemma py_slice_middle:
  "length a = i \<Longrightarrow> j = i + length b \<Longrightarrow> py_slice (a @ b @ c) i j = b"
  by (simp add: py_slice_def)

lemma long_id_text_segments:
  "segments long_id_text = [(''1'', ''original text: a''), (long_id, ''original text: b'')]"
proof -
  have s1: "py_slice long_id_text 24 40 = ''original text: a''"
    using py_slice_middle [of "''No.: 1 of all the chunks''" 24 40 "''original text: a''"
        "''No.: '' @ long_id @ '' of all the chunksoriginal text: b''"]
    by (simp add: long_id_text_def)
  have len: "length long_id_text = 4380" by (simp add: long_id_text_def long_id_digits(3))
  have s2: "py_slice long_id_text 4364 4380 = ''original text: b''"
    using py_slice_middle [of "''No.: 1 of all the chunksoriginal text: a'' @ ''No.: '' @ long_id @ '' of all the chunks''"
        4364 4380 "''original text: b''" "[]"]
    by (simp add: long_id_text_def long_id_digits(3))
  have st: "py_strip ''original text: a'' = ''original text: a''"
    "py_strip ''original text: b'' = ''original text: b''"
    by code_simp+
  show ?thesis
    unfolding segments_def Let_def long_id_text_finditer
    by (simp add: chunk_text_at_def len s1 s2 st)
qed

lemma long_id_text_overlong:
  "\<not> overlong (''1'', ''original text: a'')" "overlong (long_id, ''original text: b'')"
proof -
  have "re_search original_text_pattern ''original text: b'' \<noteq> None" by code_simp
  then show "overlong (long_id, ''original text: b'')"
    by (simp add: overlong_def long_id_digits(3))
  show "\<not> overlong (''1'', ''original text: a'')" by (simp add: overlong_def)
qed

lemma long_id_text_first_segment:
  "extract_entities ''chunk_1'' ''original text: a'' = []"
  "extract_relationships ''chunk_1'' ''original text: a'' = []"
  "chunk_records ''1'' ''original text: a'' =
     [\<lparr>content = ''a'', source_id = ''chunk_1'', source_chunk_index = 1\<rparr>]"
  by code_simp+

theorem parse_kg_from_txt_int_limit_counterexample:
  "snd (parse_kg_from_txt long_id_text) = Inl (int_limit_error 4301) \<and>
   int_limit_error 4301 \<notin> {ValueError ''Entity name cannot be empty'',
      ValueError ''Entity type cannot be empty'', ValueError ''Source ID cannot be empty'',
      ValueError ''Target ID cannot be empty'', ValueError ''No chunks found''} \<and>
   st_entities (fst (parse_loop long_id_text)) = [] \<and>
   st_relationships (fst (parse_loop long_id_text)) = [] \<and>
   st_chunks (fst (parse_loop long_id_text)) =
     [\<lparr>content = ''a'', source_id = ''chunk_1'', source_chunk_index = 1\<rparr>]"
proof -
  have e: "snd (parse_loop long_id_text) = Some (int_limit_error 4301)"
    unfolding parse_loop_error long_id_text_segments
    by (simp add: long_id_text_overlong long_id_digits(3))
  have r: "snd (parse_kg_from_txt long_id_text) = Inl (int_limit_error 4301)"
    by (simp add: parse_kg_from_txt_result e)
  have n: "int_limit_error 4301 \<notin> {ValueError ''Entity name cannot be empty'',
      ValueError ''Entity type cannot be empty'', ValueError ''Source ID cannot be empty'',
      ValueError ''Target ID cannot be empty'', ValueError ''No chunks found''}"
    by (simp add: int_limit_error_def)
  have f: "st_entities (fst (parse_loop long_id_text)) = []"
    "st_relationships (fst (parse_loop long_id_text)) = []"
    "st_chunks (fst (parse_loop long_id_text)) =
       [\<lparr>content = ''a'', source_id = ''chunk_1'', source_chunk_index = 1\<rparr>]"
    unfolding parse_loop_characterised long_id_text_segments
    by (simp_all add: long_id_text_overlong long_id_text_first_segment)
  from r n f show ?thesis by blast
qed

section \<open>Properties of the retrieval log store\<close>







end
